theory Spec2Isabelle
  imports Complex_Main
begin

section \<open>The word-addin-dev script, embedded\<close>

text \<open>
  The development follows \<^verbatim>\<open>src/word-addin-dev.js\<close> function by function.
  A JavaScript string is a list of characters; an Isabelle character is eight bits wide, so
  the model covers the code units U+0000 to U+00FF.
\<close>

subsection \<open>String primitives of the language\<close>

text \<open>\<^verbatim>\<open>s.startsWith(p)\<close>.\<close>

definition startsWith :: "string \<Rightarrow> string \<Rightarrow> bool" where
  "startsWith s p \<longleftrightarrow> take (length p) s = p"

text \<open>\<^verbatim>\<open>s.includes(p)\<close>: \<open>p\<close> starts at some index of \<open>s\<close> (the index \<open>length s\<close> included).\<close>

fun includes_str :: "string \<Rightarrow> string \<Rightarrow> bool" where
  "includes_str [] p = (p = [])"
| "includes_str (c # cs) p = (startsWith (c # cs) p \<or> includes_str cs p)"

text \<open>\<^verbatim>\<open>xs.join(sep)\<close> on an array of strings.\<close>

fun join :: "string \<Rightarrow> string list \<Rightarrow> string" where
  "join sep [] = []"
| "join sep [x] = x"
| "join sep (x # y # ys) = x @ sep @ join sep (y # ys)"

subsection \<open>Validator\<close>

text \<open>The five entity escapes tested at lines 50 to 54.\<close>

definition knownEntity :: "string \<Rightarrow> bool" where
  "knownEntity tail \<longleftrightarrow>
     startsWith tail ''&amp;'' \<or> startsWith tail ''&lt;'' \<or> startsWith tail ''&gt;'' \<or>
     startsWith tail ''&quot;'' \<or> startsWith tail ''&apos;''"

text \<open>
  \<^verbatim>\<open>hasUnescapedAmp(value)\<close>, lines 45 to 62. The loop index walks the value; the
  argument here is \<^verbatim>\<open>value.slice(i)\<close>, so its head is \<^verbatim>\<open>value[i]\<close> and the
  whole argument is \<^verbatim>\<open>tail\<close>. \<^verbatim>\<open>continue\<close> advances by one character.
\<close>

fun hasUnescapedAmp :: "string \<Rightarrow> bool" where
  "hasUnescapedAmp [] = False"
| "hasUnescapedAmp (c # cs) =
     (if c = CHR ''&''
      then (if knownEntity (c # cs) then hasUnescapedAmp cs else True)
      else hasUnescapedAmp cs)"

definition dquote :: char where
  "dquote = CHR 0x22"

definition attrOpen :: string where
  "attrOpen = ''DefaultValue='' @ [dquote]"

text \<open>
  One call of \<^verbatim>\<open>attrRegex.exec(xmlText)\<close> for the global regular expression of line 69,
  on the part of the text from \<^verbatim>\<open>lastIndex\<close> on. The pattern is the literal opening, a
  greedy run of characters other than the double quote, and a double quote; at a start
  position where the opening matches and no double quote follows, the attempt fails and the
  search moves one character on. The result is the captured group and the text after the
  match (the new \<^verbatim>\<open>lastIndex\<close>), or \<open>None\<close> for \<^verbatim>\<open>null\<close>.
\<close>

fun attrExec :: "string \<Rightarrow> (string \<times> string) option" where
  "attrExec [] = None"
| "attrExec (c # cs) =
     (if startsWith (c # cs) attrOpen
      then (let body = drop (length attrOpen) (c # cs);
                val = takeWhile (\<lambda>d. d \<noteq> dquote) body;
                rest = dropWhile (\<lambda>d. d \<noteq> dquote) body
            in if rest = [] then attrExec cs else Some (val, tl rest))
      else attrExec cs)"

definition ampIssue :: "string \<Rightarrow> string" where
  "ampIssue val = ''unescaped & in DefaultValue: '' @ take 120 val"

text \<open>The \<^verbatim>\<open>while\<close> loop of lines 71 to 76, with its \<^verbatim>\<open>break\<close>: the issues it pushes.\<close>

function attrLoop :: "string \<Rightarrow> string list" where
  "attrLoop s =
     (case attrExec s of
        None \<Rightarrow> []
      | Some (val, rest) \<Rightarrow> if hasUnescapedAmp val then [ampIssue val] else attrLoop rest)"
  by pat_completeness auto
termination
proof (relation "measure length")
  show "wf (measure length)" by simp
next
  fix s :: string and x2 val rest
  assume a: "attrExec s = Some x2" "(val, rest) = x2"
  have dw: "length (tl (dropWhile P xs)) < length xs" if "dropWhile P xs \<noteq> []"
    for P and xs :: string
  proof -
    have "length (tl (dropWhile P xs)) < length (dropWhile P xs)"
      using that by (cases "dropWhile P xs") simp_all
    also have "\<dots> \<le> length xs" by (rule length_dropWhile_le)
    finally show ?thesis .
  qed
  have "attrExec t = Some (v, r) \<Longrightarrow> length r < length t" for t v r
  proof (induction t)
    case Nil
    then show ?case by simp
  next
    case (Cons c cs)
    let ?body = "drop (length attrOpen) (c # cs)"
    let ?rest = "dropWhile (\<lambda>d. d \<noteq> dquote) ?body"
    show ?case
    proof (cases "startsWith (c # cs) attrOpen \<and> ?rest \<noteq> []")
      case True
      then have "attrExec (c # cs) = Some (takeWhile (\<lambda>d. d \<noteq> dquote) ?body, tl ?rest)"
        by (simp only: attrExec.simps Let_def if_True if_False)
      with Cons.prems have r: "r = tl ?rest" by simp
      have "length (tl ?rest) < length ?body" using True by (intro dw) simp
      also have "\<dots> \<le> length (c # cs)" by simp
      finally show ?thesis unfolding r .
    next
      case False
      then have "attrExec (c # cs) = attrExec cs"
        by (auto simp only: attrExec.simps Let_def split: if_splits)
      with Cons.prems have "length r < length cs" by (simp only: Cons.IH)
      then show ?thesis by simp
    qed
  qed
  with a show "(rest, s) \<in> measure length" by auto
qed

text \<open>\<^verbatim>\<open>validateManifestText(xmlText)\<close>, lines 64 to 78.\<close>

definition validateManifestText :: "string \<Rightarrow> string list" where
  "validateManifestText xmlText =
     (if \<not> includes_str xmlText ''<OfficeApp'' then [''missing <OfficeApp>''] else []) @
     (if \<not> includes_str xmlText ''<Id>'' then [''missing <Id>''] else []) @
     (if \<not> includes_str xmlText ''SourceLocation'' then [''missing SourceLocation''] else []) @
     attrLoop xmlText"

subsection \<open>Values of the language\<close>

text \<open>
  The values the script handles besides strings: what \<^verbatim>\<open>parseArgs\<close> stores in the
  argument object (the boolean \<^verbatim>\<open>true\<close>, a string, and the array under \<^verbatim>\<open>_\<close>), and
  numbers. A number is kept as the exact value the numeric literal denotes; the two
  decisions the script takes on numbers, finiteness and truthiness, are taken where the
  IEEE double nearest to that value takes them. Rounding inside the finite range is not
  modelled.
\<close>

datatype jsval = JBool bool | JStr string | JArr "string list"

datatype jsnum = NaN | Infinite bool | Finite rat

fun truthy :: "jsval \<Rightarrow> bool" where
  "truthy (JBool b) = b"
| "truthy (JStr s) = (s \<noteq> [])"
| "truthy (JArr xs) = True"

fun js_String :: "jsval \<Rightarrow> string" where
  "js_String (JBool b) = (if b then ''true'' else ''false'')"
| "js_String (JStr s) = s"
| "js_String (JArr xs) = join '','' xs"

text \<open>White space and line terminators below U+0100, as \<^verbatim>\<open>trim\<close> and \<^verbatim>\<open>Number\<close> strip them.\<close>

definition isWhiteSpace :: "char \<Rightarrow> bool" where
  "isWhiteSpace c \<longleftrightarrow> (of_char c :: nat) \<in> {9, 10, 11, 12, 13, 32, 160}"

definition js_trim :: "string \<Rightarrow> string" where
  "js_trim s = rev (dropWhile isWhiteSpace (rev (dropWhile isWhiteSpace s)))"

text \<open>\<^verbatim>\<open>toLowerCase\<close> on the code units below U+0100.\<close>

definition lowerChar :: "char \<Rightarrow> char" where
  "lowerChar c =
     (let n = (of_char c :: nat)
      in if (65 \<le> n \<and> n \<le> 90) \<or> (192 \<le> n \<and> n \<le> 222 \<and> n \<noteq> 215) then char_of (n + 32) else c)"

definition toLowerCase :: "string \<Rightarrow> string" where
  "toLowerCase s = map lowerChar s"

definition digitOf :: "char \<Rightarrow> nat option" where
  "digitOf c =
     (let n = (of_char c :: nat)
      in if 48 \<le> n \<and> n \<le> 57 then Some (n - 48)
         else if 97 \<le> n \<and> n \<le> 102 then Some (n - 87)
         else if 65 \<le> n \<and> n \<le> 70 then Some (n - 55)
         else None)"

definition isDigitIn :: "nat \<Rightarrow> char \<Rightarrow> bool" where
  "isDigitIn base c = (case digitOf c of Some d \<Rightarrow> d < base | None \<Rightarrow> False)"

definition digitsValue :: "nat \<Rightarrow> string \<Rightarrow> nat" where
  "digitsValue base s =
     foldl (\<lambda>acc c. acc * base + (case digitOf c of Some d \<Rightarrow> d | None \<Rightarrow> 0)) 0 s"

text \<open>The decimal digits of a natural number, for \<^verbatim>\<open>String(n)\<close>.\<close>

fun showNat :: "nat \<Rightarrow> string" where
  "showNat n =
     (if n < 10 then [char_of (48 + n)] else showNat (n div 10) @ [char_of (48 + n mod 10)])"

text \<open>
  \<^verbatim>\<open>Number(s)\<close> on a string, after the grammar of numeric string literals: white space
  is stripped; the empty string is 0; a binary, octal or hexadecimal integer carries no
  sign; a decimal literal is an optional sign and either \<^verbatim>\<open>Infinity\<close> or digits with an
  optional fraction and exponent; everything else is \<^verbatim>\<open>NaN\<close>.
\<close>

definition parseNonDecimal :: "string \<Rightarrow> nat option" where
  "parseNonDecimal s =
     (case s of
        z # x # ds \<Rightarrow>
          (let base = (if x = CHR ''x'' \<or> x = CHR ''X'' then 16
                       else if x = CHR ''o'' \<or> x = CHR ''O'' then 8
                       else if x = CHR ''b'' \<or> x = CHR ''B'' then 2 else (0::nat))
           in if z = CHR ''0'' \<and> base \<noteq> 0 \<and> ds \<noteq> [] \<and> list_all (isDigitIn base) ds
              then Some (digitsValue base ds) else None)
      | _ \<Rightarrow> None)"

definition parseExponent :: "string \<Rightarrow> int option" where
  "parseExponent s =
     (case s of
        [] \<Rightarrow> Some 0
      | e # r \<Rightarrow>
          if e = CHR ''e'' \<or> e = CHR ''E''
          then (let neg = (r \<noteq> [] \<and> hd r = CHR ''-'');
                    ds = (if r \<noteq> [] \<and> (hd r = CHR ''-'' \<or> hd r = CHR ''+'') then tl r else r)
                in if ds \<noteq> [] \<and> list_all (isDigitIn 10) ds
                   then Some (if neg then - int (digitsValue 10 ds) else int (digitsValue 10 ds))
                   else None)
          else None)"

definition scale10 :: "rat \<Rightarrow> int \<Rightarrow> rat" where
  "scale10 r e = (if 0 \<le> e then r * 10 ^ nat e else r / 10 ^ nat (- e))"

definition parseDecimal :: "string \<Rightarrow> rat option" where
  "parseDecimal s =
     (let ip = takeWhile (isDigitIn 10) s;
          r1 = dropWhile (isDigitIn 10) s;
          dot = (r1 \<noteq> [] \<and> hd r1 = CHR ''.'');
          fp = (if dot then takeWhile (isDigitIn 10) (tl r1) else []);
          r2 = (if dot then dropWhile (isDigitIn 10) (tl r1) else r1)
      in if ip = [] \<and> fp = [] then None
         else (case parseExponent r2 of
                 None \<Rightarrow> None
               | Some e \<Rightarrow> Some (scale10 (of_nat (digitsValue 10 (ip @ fp))) (e - int (length fp)))))"

text \<open>
  Rounding to a double at the two ends of the range: a value of magnitude at least
  \<open>2^1024 - 2^970\<close> becomes an infinity.
\<close>

definition toDouble :: "rat \<Rightarrow> jsnum" where
  "toDouble r = (if 2 ^ 1024 - 2 ^ 970 \<le> \<bar>r\<bar> then Infinite (r < 0) else Finite r)"

definition js_Number_str :: "string \<Rightarrow> jsnum" where
  "js_Number_str s =
     (let t = js_trim s
      in if t = [] then Finite 0
         else (case parseNonDecimal t of
                 Some n \<Rightarrow> toDouble (of_nat n)
               | None \<Rightarrow>
                   (let neg = (hd t = CHR ''-'');
                        u = (if hd t = CHR ''-'' \<or> hd t = CHR ''+'' then tl t else t)
                    in if u = ''Infinity'' then Infinite neg
                       else (case parseDecimal u of
                               Some r \<Rightarrow> toDouble (if neg then - r else r)
                             | None \<Rightarrow> NaN))))"

fun js_Number :: "jsval \<Rightarrow> jsnum" where
  "js_Number (JBool b) = Finite (if b then 1 else 0)"
| "js_Number (JStr s) = js_Number_str s"
| "js_Number (JArr xs) = js_Number_str (join '','' xs)"

text \<open>\<^verbatim>\<open>Number.isFinite\<close>.\<close>

fun isFinite :: "jsnum \<Rightarrow> bool" where
  "isFinite (Finite r) = True"
| "isFinite _ = False"

text \<open>
  \<^verbatim>\<open>!n\<close> for a number: \<^verbatim>\<open>NaN\<close> and the zeros are falsy; a value of magnitude at most
  \<open>2^-1075\<close> is a zero as a double.
\<close>

fun numFalsy :: "jsnum \<Rightarrow> bool" where
  "numFalsy NaN = True"
| "numFalsy (Infinite b) = False"
| "numFalsy (Finite r) = (\<bar>r\<bar> \<le> 1 / 2 ^ 1075)"

subsection \<open>The host: file system, processes, network\<close>

text \<open>
  Every call the script makes to the Node.js runtime or the machine under it is an event;
  a run is observed through the list of its events, in order. \<open>Call\<close> records a call to
  one of the two reclamation functions, made at lines 291 and 293.
\<close>

datatype event =
    Access string
  | ReadFile string
  | Mkdir string
  | OpenAppend string
  | WriteFile string string
  | CopyFile string string
  | ExecFile string "string list"
  | Spawn string
  | Kill jsnum
  | Fetch string
  | Sleep nat
  | Stdout string
  | Call string

text \<open>
  An exception: \<open>Error\<close> is \<^verbatim>\<open>new Error(message)\<close> thrown by the script, \<open>TypeError\<close> is
  thrown by the language or by a runtime function that rejects its argument, \<open>HostError\<close> is
  thrown by a file-system or process call.
\<close>

datatype exn = Error string | TypeError string | HostError string

fun message :: "exn \<Rightarrow> string" where
  "message (Error m) = m"
| "message (TypeError m) = m"
| "message (HostError m) = m"

fun errorName :: "exn \<Rightarrow> string" where
  "errorName (Error m) = ''Error''"
| "errorName (TypeError m) = ''TypeError''"
| "errorName (HostError m) = ''Error''"

text \<open>The answer to one request: the attempt throws, or a response arrives with its \<^verbatim>\<open>ok\<close> flag.\<close>

datatype fetch_result = FetchThrows | Response bool

text \<open>
  What the host answers. An answer may depend on everything the run has done so far (the
  events up to the call), so the file system and the process table may change under the
  run. \<open>Inl m\<close> is a call that throws an error with the message \<open>m\<close>. \<open>fetch h url i\<close> is the answer to the
  \<open>i\<close>-th request to \<open>url\<close> in the run, counted from 0. The functions of the \<^verbatim>\<open>path\<close>
  module other than \<^verbatim>\<open>resolve\<close>, and the printing of a number that is not a small integer,
  are taken from the host as they are.
\<close>

record host =
  cwd :: string
  env_HOME :: "string option"
  platform :: string
  accessSync :: "event list \<Rightarrow> string \<Rightarrow> bool"
  readFileSync :: "event list \<Rightarrow> string \<Rightarrow> string + string"
  mkdirSync :: "event list \<Rightarrow> string \<Rightarrow> string + unit"
  openSync :: "event list \<Rightarrow> string \<Rightarrow> string + nat"
  writeFileSync :: "event list \<Rightarrow> string \<Rightarrow> string \<Rightarrow> string + unit"
  copyFileSync :: "event list \<Rightarrow> string \<Rightarrow> string \<Rightarrow> string + unit"
  execFileSync :: "event list \<Rightarrow> string \<Rightarrow> string list \<Rightarrow> string + string"
  spawn :: "event list \<Rightarrow> string \<Rightarrow> string + nat option"
  process_kill :: "event list \<Rightarrow> jsnum \<Rightarrow> string + unit"
  fetch :: "string \<Rightarrow> nat \<Rightarrow> fetch_result"
  path_join :: "string list \<Rightarrow> string"
  path_dirname :: "string \<Rightarrow> string"
  path_basename :: "string \<Rightarrow> string"
  formatNumber :: "rat \<Rightarrow> string"

text \<open>
  The result of a piece of the script: it returns a value or throws, and either way the
  events it has made stay made.
\<close>

datatype 'a res = Ok 'a "event list" | Throw exn "event list"

fun events :: "'a res \<Rightarrow> event list" where
  "events (Ok a tr) = tr"
| "events (Throw e tr) = tr"

text \<open>Sequencing: a throw skips what follows.\<close>

fun andThen :: "'a res \<Rightarrow> ('a \<Rightarrow> event list \<Rightarrow> 'b res) \<Rightarrow> 'b res" where
  "andThen (Ok a tr) f = f a tr"
| "andThen (Throw e tr) f = Throw e tr"

text \<open>\<^verbatim>\<open>try { ... } catch (err) { }\<close> with an empty handler.\<close>

fun ignoreErrors :: "'a res \<Rightarrow> unit res" where
  "ignoreErrors (Ok a tr) = Ok () tr"
| "ignoreErrors (Throw e tr) = Ok () tr"

text \<open>One call to the host: the event is recorded, the answer decides return or throw.\<close>

definition callHost :: "event \<Rightarrow> string + 'a \<Rightarrow> event list \<Rightarrow> 'a res" where
  "callHost ev answer tr =
     (case answer of Inl m \<Rightarrow> Throw (HostError m) (tr @ [ev]) | Inr a \<Rightarrow> Ok a (tr @ [ev]))"

definition execFile :: "host \<Rightarrow> string \<Rightarrow> string list \<Rightarrow> event list \<Rightarrow> string res" where
  "execFile h file args tr = callHost (ExecFile file args) (execFileSync h tr file args) tr"

definition kill :: "host \<Rightarrow> jsnum \<Rightarrow> event list \<Rightarrow> unit res" where
  "kill h pid tr = callHost (Kill pid) (process_kill h tr pid) tr"

text \<open>\<^verbatim>\<open>String(n)\<close> and \<^verbatim>\<open>`${n}`\<close> for a number.\<close>

definition numToString :: "host \<Rightarrow> jsnum \<Rightarrow> string" where
  "numToString h n =
     (case n of
        NaN \<Rightarrow> ''NaN''
      | Infinite neg \<Rightarrow> (if neg then ''-Infinity'' else ''Infinity'')
      | Finite r \<Rightarrow>
          if of_int \<lfloor>r\<rfloor> = r \<and> \<bar>r\<bar> \<le> 2 ^ 53
          then (if r < 0 then ''-'' else []) @ showNat (nat \<bar>\<lfloor>r\<rfloor>\<bar>)
          else formatNumber h r)"

text \<open>
  \<^verbatim>\<open>path.resolve(p)\<close> on a POSIX host: a relative path is joined to the working
  directory, empty and \<^verbatim>\<open>.\<close> segments are dropped, \<^verbatim>\<open>..\<close> drops the segment before it.
\<close>

fun splitOn :: "char \<Rightarrow> string \<Rightarrow> string \<Rightarrow> string list" where
  "splitOn sep acc [] = [rev acc]"
| "splitOn sep acc (c # cs) =
     (if c = sep then rev acc # splitOn sep [] cs else splitOn sep (c # acc) cs)"

fun normSegments :: "string list \<Rightarrow> string list \<Rightarrow> string list" where
  "normSegments acc [] = rev acc"
| "normSegments acc (seg # segs) =
     (if seg = [] \<or> seg = ''.'' then normSegments acc segs
      else if seg = ''..'' then normSegments (tl acc) segs
      else normSegments (seg # acc) segs)"

definition path_resolve :: "host \<Rightarrow> string \<Rightarrow> string" where
  "path_resolve h p =
     (let full = (if startsWith p ''/'' then p else cwd h @ ''/'' @ p)
      in ''/'' @ join ''/'' (normSegments [] (splitOn (CHR ''/'') [] full)))"

subsection \<open>Argument parsing\<close>

text \<open>
  The object \<^verbatim>\<open>out\<close> of \<^verbatim>\<open>parseArgs\<close>, lines 8 to 22, as the map of its own properties.
  An assignment to \<^verbatim>\<open>__proto__\<close> with a primitive value leaves the object as it is. A
  positional token is pushed on \<^verbatim>\<open>out._\<close>, which is no longer an array once the
  token \<^verbatim>\<open>--_\<close> has overwritten it.
\<close>

type_synonym args = "string \<rightharpoonup> jsval"

definition setProp :: "args \<Rightarrow> string \<Rightarrow> jsval \<Rightarrow> args" where
  "setProp out key v = (if key = ''__proto__'' then out else out(key \<mapsto> v))"

fun parseLoop :: "string list \<Rightarrow> args \<Rightarrow> exn + args" where
  "parseLoop [] out = Inr out"
| "parseLoop (token # rest) out =
     (if startsWith token ''--''
      then (let key = drop 2 token
            in (case rest of
                  [] \<Rightarrow> parseLoop rest (setProp out key (JBool True))
                | a # rest' \<Rightarrow>
                    if a \<noteq> [] \<and> \<not> startsWith a ''--''
                    then parseLoop rest' (setProp out key (JStr a))
                    else parseLoop rest (setProp out key (JBool True))))
      else (case out ''_'' of
              Some (JArr xs) \<Rightarrow> parseLoop rest (out(''_'' \<mapsto> JArr (xs @ [token])))
            | _ \<Rightarrow> Inl (TypeError ''out._.push is not a function'')))"

definition parseArgs :: "string list \<Rightarrow> exn + args" where
  "parseArgs argv = parseLoop argv [''_'' \<mapsto> JArr []]"

text \<open>\<^verbatim>\<open>boolArg(args, key, defaultValue)\<close>, lines 24 to 30.\<close>

definition boolArg :: "args \<Rightarrow> string \<Rightarrow> bool \<Rightarrow> bool" where
  "boolArg args key defaultValue =
     (case args key of
        None \<Rightarrow> defaultValue
      | Some (JBool b) \<Rightarrow> b
      | Some v \<Rightarrow>
          (let value = toLowerCase (js_String v)
           in if value = ''false'' \<or> value = ''0'' \<or> value = ''no'' then False else True))"

subsection \<open>File helpers and manifest validation\<close>

text \<open>
  \<^verbatim>\<open>fileExists(filePath)\<close>, lines 32 to 39: it never throws. \<^verbatim>\<open>fs.accessSync\<close> rejects an
  argument that is not a string before it reaches the file system.
\<close>

definition fileExists :: "host \<Rightarrow> jsval \<Rightarrow> event list \<Rightarrow> bool res" where
  "fileExists h filePath tr =
     (case filePath of
        JStr p \<Rightarrow> Ok (accessSync h tr p) (tr @ [Access p])
      | _ \<Rightarrow> Ok False tr)"

definition ensureDir :: "host \<Rightarrow> string \<Rightarrow> event list \<Rightarrow> unit res" where
  "ensureDir h dirPath tr = callHost (Mkdir dirPath) (mkdirSync h tr dirPath) tr"

text \<open>\<^verbatim>\<open>validateManifestFile(filePath)\<close>, lines 80 to 86.\<close>

definition validateManifestFile :: "host \<Rightarrow> string \<Rightarrow> event list \<Rightarrow> unit res" where
  "validateManifestFile h filePath tr =
     andThen (callHost (ReadFile filePath) (readFileSync h tr filePath) tr) (\<lambda>xmlText tr.
       let issues = validateManifestText xmlText
       in if issues \<noteq> [] then Throw (Error (''Manifest invalid: '' @ join ''; '' issues)) tr
          else Ok () tr)"

subsection \<open>Health polling\<close>

text \<open>
  The \<^verbatim>\<open>for\<close> loop of \<^verbatim>\<open>waitForHealth\<close>, lines 95 to 104, from the loop index \<open>i\<close> on.
  \<open>target i\<close> is what the \<open>i\<close>-th \<^verbatim>\<open>fetch(url)\<close> does. A response that is \<^verbatim>\<open>ok\<close> returns;
  a response that is not, and a request that throws, go on to the \<^verbatim>\<open>sleep\<close>.
\<close>

function healthLoop ::
  "(nat \<Rightarrow> fetch_result) \<Rightarrow> string \<Rightarrow> nat \<Rightarrow> nat \<Rightarrow> nat \<Rightarrow> event list \<Rightarrow> bool res" where
  "healthLoop target url maxAttempts waitMs i tr =
     (if i < maxAttempts
      then (if target i = Response True
            then Ok True (tr @ [Fetch url])
            else healthLoop target url maxAttempts waitMs (i + 1) (tr @ [Fetch url, Sleep waitMs]))
      else Throw (Error (''server not healthy at '' @ url)) tr)"
  by pat_completeness auto
termination
  by (relation "measure (\<lambda>(target, url, maxAttempts, waitMs, i, tr). maxAttempts - i)") auto

text \<open>
  \<^verbatim>\<open>waitForHealth(url, attempts, delayMs)\<close>, lines 92 to 105. \<open>orDefault n d\<close> is
  \<^verbatim>\<open>n || d\<close> on a count: 0 is falsy.
\<close>

definition orDefault :: "nat \<Rightarrow> nat \<Rightarrow> nat" where
  "orDefault n d = (if n \<noteq> 0 then n else d)"

definition waitForHealth ::
  "(nat \<Rightarrow> fetch_result) \<Rightarrow> string \<Rightarrow> nat \<Rightarrow> nat \<Rightarrow> event list \<Rightarrow> bool res" where
  "waitForHealth target url attempts delayMs tr =
     (let maxAttempts = orDefault attempts 12;
          waitMs = orDefault delayMs 400
      in healthLoop target url maxAttempts waitMs 0 tr)"

subsection \<open>Reclaiming the port\<close>

text \<open>\<^verbatim>\<open>killPidFile(pidPath)\<close>, lines 107 to 117.\<close>

definition killPidFile :: "host \<Rightarrow> jsval \<Rightarrow> event list \<Rightarrow> unit res" where
  "killPidFile h pidPath tr =
     (if \<not> truthy pidPath then Ok () tr
      else andThen (fileExists h pidPath tr) (\<lambda>found tr.
        if \<not> found then Ok () tr
        else andThen (callHost (ReadFile (js_String pidPath))
                        (readFileSync h tr (js_String pidPath)) tr) (\<lambda>content tr.
          let raw = js_trim content;
              pid = js_Number_str raw
          in if \<not> isFinite pid then Ok () tr
             else ignoreErrors (kill h pid tr))))"

text \<open>\<^verbatim>\<open>raw.split(/\r?\n/)\<close>: a line ends at a line feed, or at a carriage return with a line feed after it.\<close>

fun splitLines :: "string \<Rightarrow> string \<Rightarrow> string list" where
  "splitLines acc [] = [rev acc]"
| "splitLines acc (c # cs) =
     (if c = CHR 0x0A then rev acc # splitLines [] cs
      else (case cs of
              [] \<Rightarrow> splitLines (c # acc) cs
            | d # ds \<Rightarrow>
                if c = CHR 0x0D \<and> d = CHR 0x0A then rev acc # splitLines [] ds
                else splitLines (c # acc) cs))"

text \<open>The \<^verbatim>\<open>forEach\<close> of lines 124 to 130: each signal in its own \<^verbatim>\<open>try\<close>.\<close>

fun killEach :: "host \<Rightarrow> jsnum list \<Rightarrow> event list \<Rightarrow> unit res" where
  "killEach h [] tr = Ok () tr"
| "killEach h (pid # pids) tr =
     andThen (ignoreErrors (kill h pid tr)) (\<lambda>u tr. killEach h pids tr)"

text \<open>\<^verbatim>\<open>killPort(port)\<close>, lines 119 to 134.\<close>

definition killPort :: "host \<Rightarrow> jsnum \<Rightarrow> event list \<Rightarrow> unit res" where
  "killPort h port tr =
     (if numFalsy port then Ok () tr
      else ignoreErrors
        (andThen (execFile h ''lsof''
                    [''-nP'', ''-iTCP:'' @ numToString h port, ''-sTCP:LISTEN'', ''-t''] tr) (\<lambda>out tr.
           let raw = js_trim out
           in if raw = [] then Ok () tr
              else killEach h
                     (filter isFinite (map (\<lambda>line. js_Number_str (js_trim line)) (splitLines [] raw)))
                     tr)))"

subsection \<open>Launching the server\<close>

text \<open>\<^verbatim>\<open>path.dirname\<close> throws on an argument that is not a string.\<close>

definition dirname :: "host \<Rightarrow> jsval \<Rightarrow> event list \<Rightarrow> string res" where
  "dirname h p tr =
     (case p of
        JStr s \<Rightarrow> Ok (path_dirname h s) tr
      | _ \<Rightarrow> Throw (TypeError (''The '' @ [dquote] @ ''path'' @ [dquote] @
                 '' argument must be of type string. Received '' @
                 (case p of JBool b \<Rightarrow> ''type boolean ('' @ js_String p @ '')''
                  | _ \<Rightarrow> ''an instance of Array''))) tr)"

text \<open>\<^verbatim>\<open>String(child.pid)\<close>: the pid is a number, or \<^verbatim>\<open>undefined\<close> when the spawn failed.\<close>

definition pidString :: "nat option \<Rightarrow> string" where
  "pidString pid = (case pid of None \<Rightarrow> ''undefined'' | Some n \<Rightarrow> showNat n)"

text \<open>\<^verbatim>\<open>startServerDetached(serverCmd, pidPath, logPath)\<close>, lines 136 to 149.\<close>

definition startServerDetached ::
  "host \<Rightarrow> string option \<Rightarrow> jsval \<Rightarrow> jsval \<Rightarrow> event list \<Rightarrow> nat option res" where
  "startServerDetached h serverCmd pidPath logPath tr =
     (case serverCmd of
        None \<Rightarrow> Ok None tr
      | Some cmd \<Rightarrow>
          if cmd = [] then Ok None tr
          else andThen (dirname h pidPath tr) (\<lambda>pidDir tr.
               andThen (ensureDir h pidDir tr) (\<lambda>u tr.
               andThen (dirname h logPath tr) (\<lambda>logDir tr.
               andThen (ensureDir h logDir tr) (\<lambda>u tr.
               andThen (callHost (OpenAppend (js_String logPath))
                          (openSync h tr (js_String logPath)) tr) (\<lambda>out tr.
               andThen (callHost (Spawn cmd) (spawn h tr cmd) tr) (\<lambda>pid tr.
               andThen (callHost (WriteFile (js_String pidPath) (pidString pid))
                          (writeFileSync h tr (js_String pidPath) (pidString pid)) tr) (\<lambda>u tr.
               Ok pid tr))))))))"

subsection \<open>Applications: restart, cache, sideload\<close>

text \<open>\<^verbatim>\<open>resolveAppTargets(appValue)\<close>, lines 151 to 158.\<close>

definition resolveAppTargets :: "string \<Rightarrow> exn + string list" where
  "resolveAppTargets appValue =
     (let app = toLowerCase (if appValue \<noteq> [] then appValue else ''word'');
          targets = (if app = ''word'' \<or> app = ''both'' then [''Microsoft Word''] else []) @
                    (if app = ''excel'' \<or> app = ''both'' then [''Microsoft Excel''] else [])
      in if targets = [] then Inl (Error ''app must be word, excel, or both'') else Inr targets)"

text \<open>The \<^verbatim>\<open>forEach\<close> of \<^verbatim>\<open>restartApps\<close>, lines 162 to 169: the quit may fail, the open may not.\<close>

fun restartEach :: "host \<Rightarrow> string list \<Rightarrow> event list \<Rightarrow> unit res" where
  "restartEach h [] tr = Ok () tr"
| "restartEach h (app # apps) tr =
     andThen (ignoreErrors
                (execFile h ''osascript'' [''-e'', ''quit app '' @ [dquote] @ app @ [dquote]] tr)) (\<lambda>u tr.
     andThen (execFile h ''open'' [''-a'', app] tr) (\<lambda>out tr.
     restartEach h apps tr))"

definition restartApps :: "host \<Rightarrow> string \<Rightarrow> event list \<Rightarrow> unit res" where
  "restartApps h appValue tr =
     (case resolveAppTargets appValue of
        Inl e \<Rightarrow> Throw e tr
      | Inr apps \<Rightarrow> restartEach h apps tr)"

text \<open>\<^verbatim>\<open>findTrashBin()\<close>, lines 172 to 179.\<close>

definition findTrashBin :: "host \<Rightarrow> event list \<Rightarrow> string option res" where
  "findTrashBin h tr =
     (case execFile h ''which'' [''trash''] tr of
        Ok out tr' \<Rightarrow> Ok (Some ''trash'') tr'
      | Throw e tr' \<Rightarrow> Ok None tr')"

fun trashEach :: "host \<Rightarrow> string \<Rightarrow> string list \<Rightarrow> event list \<Rightarrow> unit res" where
  "trashEach h bin [] tr = Ok () tr"
| "trashEach h bin (target # targets) tr =
     andThen (fileExists h (JStr target) tr) (\<lambda>found tr.
     andThen (if found then execFile h bin [target] tr else Ok [] tr) (\<lambda>out tr.
     trashEach h bin targets tr))"

text \<open>\<^verbatim>\<open>trashPaths(pathsToTrash)\<close>, lines 181 to 191.\<close>

definition trashPaths :: "host \<Rightarrow> string list \<Rightarrow> event list \<Rightarrow> unit res" where
  "trashPaths h pathsToTrash tr =
     andThen (findTrashBin h tr) (\<lambda>bin tr.
       case bin of
         None \<Rightarrow> Throw (Error ''trash command not found (install or skip --clear-cache)'') tr
       | Some b \<Rightarrow> trashEach h b pathsToTrash tr)"

definition homeDir :: "host \<Rightarrow> string" where
  "homeDir h = (case env_HOME h of None \<Rightarrow> [] | Some d \<Rightarrow> d)"

definition containerPath :: "host \<Rightarrow> string \<Rightarrow> string list \<Rightarrow> string" where
  "containerPath h bundle sub = path_join h ([homeDir h, ''Library'', ''Containers'', bundle, ''Data''] @ sub)"

fun clearEach :: "host \<Rightarrow> string list \<Rightarrow> event list \<Rightarrow> unit res" where
  "clearEach h [] tr = Ok () tr"
| "clearEach h (app # apps) tr =
     andThen (if app = ''Microsoft Word''
              then trashPaths h [containerPath h ''com.microsoft.Word'' [''Library'', ''Caches''],
                                 containerPath h ''com.microsoft.Word'' [''Library'', ''WebKit'']] tr
              else Ok () tr) (\<lambda>u tr.
     andThen (if app = ''Microsoft Excel''
              then trashPaths h [containerPath h ''com.microsoft.Excel'' [''Library'', ''Caches''],
                                 containerPath h ''com.microsoft.Excel'' [''Library'', ''WebKit'']] tr
              else Ok () tr) (\<lambda>u tr.
     clearEach h apps tr))"

text \<open>\<^verbatim>\<open>clearOfficeCache(appValue)\<close>, lines 193 to 212.\<close>

definition clearOfficeCache :: "host \<Rightarrow> string \<Rightarrow> event list \<Rightarrow> unit res" where
  "clearOfficeCache h appValue tr =
     (if platform h \<noteq> ''darwin'' then Ok () tr
      else if homeDir h = [] then Throw (Error ''HOME not set'') tr
      else (case resolveAppTargets appValue of
              Inl e \<Rightarrow> Throw e tr
            | Inr apps \<Rightarrow> clearEach h apps tr))"

fun copyEach :: "host \<Rightarrow> string \<Rightarrow> string list \<Rightarrow> event list \<Rightarrow> unit res" where
  "copyEach h manifestPath [] tr = Ok () tr"
| "copyEach h manifestPath (dir # dirs) tr =
     andThen (ensureDir h dir tr) (\<lambda>u tr.
     andThen (callHost (CopyFile manifestPath (path_join h [dir, path_basename h manifestPath]))
                (copyFileSync h tr manifestPath (path_join h [dir, path_basename h manifestPath])) tr)
       (\<lambda>u tr. copyEach h manifestPath dirs tr))"

text \<open>\<^verbatim>\<open>sideloadMacManifest(manifestPath, appValue)\<close>, lines 214 to 229.\<close>

definition sideloadMacManifest :: "host \<Rightarrow> string \<Rightarrow> string \<Rightarrow> event list \<Rightarrow> unit res" where
  "sideloadMacManifest h manifestPath appValue tr =
     (if homeDir h = [] then Throw (Error ''HOME not set'') tr
      else (let targets =
                  (if appValue = ''word'' \<or> appValue = ''both''
                   then [containerPath h ''com.microsoft.Word'' [''Documents'', ''wef'']] else []) @
                  (if appValue = ''excel'' \<or> appValue = ''both''
                   then [containerPath h ''com.microsoft.Excel'' [''Documents'', ''wef'']] else [])
            in if targets = [] then Throw (Error ''app must be word, excel, or both'') tr
               else copyEach h manifestPath targets tr))"

subsection \<open>The orchestrator\<close>

definition newline :: string where
  "newline = [CHR 0x0A]"

text \<open>\<^verbatim>\<open>usage()\<close>, lines 231 to 253.\<close>

definition usage :: string where
  "usage = join newline
     [''word-addin-dev (deterministic dev loop for Office add-ins)'',
      [],
      ''Usage:'',
      ''  node word-addin-dev.js --manifest ./manifest.xml --server-cmd '' @ [dquote] @
        ''node dist/your-app.js serve --port 4321'' @ [dquote],
      [],
      ''Options:'',
      ''  --manifest <path>        Manifest XML to validate/sideload'',
      ''  --server-cmd <command>   Server command to run (quoted)'',
      ''  --health-url <url>       Health check URL (default: http://localhost:4321/api/health)'',
      ''  --app word|excel|both    Target app (default: word)'',
      ''  --port <n>               Port used for kill-port (default: 4321)'',
      ''  --pid-file <path>        PID file for server (default: .cache/verify/server.pid)'',
      ''  --log-file <path>        Log file for server (default: .cache/verify/server.log)'',
      ''  --sideload true|false    Copy manifest to wef (default: true if manifest provided)'',
      ''  --restart true|false     Restart app after sideload (default: true if sideload true)'',
      ''  --clear-cache true|false Clear Office caches (default: false)'',
      ''  --validate true|false    Validate manifest before sideload (default: true)'',
      ''  --health true|false      Wait for health check (default: true)'',
      ''  --kill-port true|false   Kill any listener on port (default: true)'']"

text \<open>The constants of lines 262 to 275, once computed.\<close>

record config =
  manifestPath :: "string option"
  appValue :: string
  port :: jsnum
  pidPath :: jsval
  logPath :: jsval
  serverCmd :: "string option"
  healthUrl :: string
  sideload :: bool
  restart :: bool
  clearCache :: bool
  validate :: bool
  health :: bool
  killPortFlag :: bool

text \<open>\<^verbatim>\<open>args[key] || fallback\<close>: the property when it is there and truthy.\<close>

definition given :: "args \<Rightarrow> string \<Rightarrow> jsval option" where
  "given args key = (case args key of None \<Rightarrow> None | Some v \<Rightarrow> if truthy v then Some v else None)"

text \<open>Line 257.\<close>

definition helpRequested :: "args \<Rightarrow> bool" where
  "helpRequested args \<longleftrightarrow>
     (case args ''_'' of Some (JArr (x # xs)) \<Rightarrow> x = ''help'' | _ \<Rightarrow> False) \<or> given args ''help'' \<noteq> None"

text \<open>Line 262: \<^verbatim>\<open>null\<close> is \<open>None\<close>.\<close>

definition manifestPathOf :: "host \<Rightarrow> args \<Rightarrow> string option" where
  "manifestPathOf h args =
     (case given args ''manifest'' of None \<Rightarrow> None | Some v \<Rightarrow> Some (path_resolve h (js_String v)))"

text \<open>Line 263: only a string has \<^verbatim>\<open>toLowerCase\<close>.\<close>

definition appValueOf :: "args \<Rightarrow> exn + string" where
  "appValueOf args =
     (case given args ''app'' of
        None \<Rightarrow> Inr (toLowerCase ''word'')
      | Some (JStr s) \<Rightarrow> Inr (toLowerCase s)
      | Some v \<Rightarrow> Inl (TypeError (''(args.app || '' @ [dquote] @ ''word'' @ [dquote] @
                        '').toLowerCase is not a function'')))"

text \<open>Line 264.\<close>

definition portOf :: "args \<Rightarrow> jsnum" where
  "portOf args = (case given args ''port'' of None \<Rightarrow> Finite 4321 | Some v \<Rightarrow> js_Number v)"

text \<open>Line 270: \<^verbatim>\<open>Boolean(manifestPath)\<close> is the default of \<^verbatim>\<open>sideload\<close>.\<close>

definition sideloadOf :: "host \<Rightarrow> args \<Rightarrow> bool" where
  "sideloadOf h args =
     boolArg args ''sideload''
       (case manifestPathOf h args of None \<Rightarrow> False | Some p \<Rightarrow> p \<noteq> [])"

text \<open>Line 271.\<close>

definition restartOf :: "host \<Rightarrow> args \<Rightarrow> bool" where
  "restartOf h args = boolArg args ''restart'' (sideloadOf h args)"

text \<open>Lines 262 to 275, in order; line 263 is the one that can throw.\<close>

definition resolveConfig :: "host \<Rightarrow> args \<Rightarrow> exn + config" where
  "resolveConfig h args =
     (case appValueOf args of
        Inl e \<Rightarrow> Inl e
      | Inr app \<Rightarrow>
          Inr \<lparr> manifestPath = manifestPathOf h args,
                appValue = app,
                port = portOf args,
                pidPath = (case given args ''pid-file'' of
                             None \<Rightarrow> JStr (path_join h [cwd h, ''.cache'', ''verify'', ''server.pid''])
                           | Some v \<Rightarrow> v),
                logPath = (case given args ''log-file'' of
                             None \<Rightarrow> JStr (path_join h [cwd h, ''.cache'', ''verify'', ''server.log''])
                           | Some v \<Rightarrow> v),
                serverCmd = (case given args ''server-cmd'' of
                               None \<Rightarrow> None | Some v \<Rightarrow> Some (js_String v)),
                healthUrl = (case given args ''health-url'' of
                               None \<Rightarrow> ''http://localhost:'' @ numToString h (portOf args) @ ''/api/health''
                             | Some v \<Rightarrow> js_String v),
                sideload = sideloadOf h args,
                restart = restartOf h args,
                clearCache = boolArg args ''clear-cache'' False,
                validate = boolArg args ''validate'' True,
                health = boolArg args ''health'' True,
                killPortFlag = boolArg args ''kill-port'' True \<rparr>)"

text \<open>Lines 277 to 279.\<close>

definition validateStep :: "host \<Rightarrow> config \<Rightarrow> event list \<Rightarrow> unit res" where
  "validateStep h cfg tr =
     (case manifestPath cfg of
        None \<Rightarrow> Ok () tr
      | Some p \<Rightarrow> if p \<noteq> [] \<and> validate cfg then validateManifestFile h p tr else Ok () tr)"

text \<open>Lines 281 to 283.\<close>

definition clearCacheStep :: "host \<Rightarrow> config \<Rightarrow> event list \<Rightarrow> unit res" where
  "clearCacheStep h cfg tr =
     (if clearCache cfg then clearOfficeCache h (appValue cfg) tr else Ok () tr)"

text \<open>Lines 285 to 288.\<close>

definition sideloadStep :: "host \<Rightarrow> config \<Rightarrow> event list \<Rightarrow> unit res" where
  "sideloadStep h cfg tr =
     (if sideload cfg
      then (case manifestPath cfg of
              None \<Rightarrow> Throw (Error ''manifest is required when sideload=true'') tr
            | Some p \<Rightarrow>
                if p = [] then Throw (Error ''manifest is required when sideload=true'') tr
                else sideloadMacManifest h p (appValue cfg) tr)
      else Ok () tr)"

text \<open>Lines 290 to 294.\<close>

definition reclaimStep :: "host \<Rightarrow> config \<Rightarrow> event list \<Rightarrow> unit res" where
  "reclaimStep h cfg tr =
     (if killPortFlag cfg
      then killPort h (port cfg) (tr @ [Call ''killPort''])
      else killPidFile h (pidPath cfg) (tr @ [Call ''killPidFile'']))"

text \<open>Lines 298 to 300.\<close>

definition healthStep :: "host \<Rightarrow> config \<Rightarrow> event list \<Rightarrow> bool res" where
  "healthStep h cfg tr =
     (if health cfg then waitForHealth (fetch h (healthUrl cfg)) (healthUrl cfg) 12 400 tr
      else Ok True tr)"

text \<open>Lines 302 to 304.\<close>

definition restartStep :: "host \<Rightarrow> config \<Rightarrow> event list \<Rightarrow> unit res" where
  "restartStep h cfg tr = (if restart cfg then restartApps h (appValue cfg) tr else Ok () tr)"

text \<open>Line 306: a pid that is missing or 0 prints as \<^verbatim>\<open>none\<close>.\<close>

definition okLine :: "host \<Rightarrow> config \<Rightarrow> nat option \<Rightarrow> string" where
  "okLine h cfg pid =
     ''ok (pid='' @ (case pid of None \<Rightarrow> ''none'' | Some n \<Rightarrow> if n = 0 then ''none'' else showNat n) @
     '' port='' @ numToString h (port cfg) @ '')'' @ newline"

text \<open>Lines 277 to 288: validation, cache clearing and sideload.\<close>

definition installPhase :: "host \<Rightarrow> config \<Rightarrow> event list \<Rightarrow> unit res" where
  "installPhase h cfg tr =
     andThen (validateStep h cfg tr) (\<lambda>u tr.
     andThen (clearCacheStep h cfg tr) (\<lambda>u tr.
     sideloadStep h cfg tr))"

text \<open>Lines 277 to 296: everything up to and including the launch.\<close>

definition launchPhase :: "host \<Rightarrow> config \<Rightarrow> event list \<Rightarrow> nat option res" where
  "launchPhase h cfg tr =
     andThen (installPhase h cfg tr) (\<lambda>u tr.
     andThen (reclaimStep h cfg tr) (\<lambda>u tr.
     startServerDetached h (serverCmd cfg) (pidPath cfg) (logPath cfg) tr))"

text \<open>Lines 277 to 306.\<close>

definition pipeline :: "host \<Rightarrow> config \<Rightarrow> event list \<Rightarrow> unit res" where
  "pipeline h cfg tr =
     andThen (launchPhase h cfg tr) (\<lambda>pid tr.
     andThen (healthStep h cfg tr) (\<lambda>ok tr.
     andThen (restartStep h cfg tr) (\<lambda>u tr.
     Ok () (tr @ [Stdout (okLine h cfg pid)]))))"

text \<open>\<^verbatim>\<open>main()\<close>, lines 255 to 307, on \<^verbatim>\<open>process.argv.slice(2)\<close>.\<close>

definition main :: "host \<Rightarrow> string list \<Rightarrow> unit res" where
  "main h argv =
     (case parseArgs argv of
        Inl e \<Rightarrow> Throw e []
      | Inr args \<Rightarrow>
          if helpRequested args then Ok () [Stdout (usage @ newline)]
          else (case resolveConfig h args of
                  Inl e \<Rightarrow> Throw e []
                | Inr cfg \<Rightarrow> pipeline h cfg []))"

text \<open>
  What the process leaves behind: its exit code, what it wrote to standard error, and its
  events. Lines 309 to 312 print \<^verbatim>\<open>err.message\<close>, or the error itself when the message is
  empty, and exit with code 1.
\<close>

record outcome =
  exitCode :: nat
  stderr :: string
  effects :: "event list"

definition report :: "exn \<Rightarrow> string" where
  "report e = (if message e \<noteq> [] then message e else errorName e) @ newline"

definition run :: "host \<Rightarrow> string list \<Rightarrow> outcome" where
  "run h argv =
     (case main h argv of
        Ok u tr \<Rightarrow> \<lparr> exitCode = 0, stderr = [], effects = tr \<rparr>
      | Throw e tr \<Rightarrow> \<lparr> exitCode = 1, stderr = report e, effects = tr \<rparr>)"

section \<open>Notions of the specification\<close>

text \<open>
  What the specification speaks of, stated on its own terms: a text has a substring; a
  value has a bare ampersand (one that no entity escape follows at once); the attribute
  values of a text are the successive matches of the pattern, in document order; a
  defect is ampersand-related by its marker.
\<close>

definition hasSubstring :: "string \<Rightarrow> string \<Rightarrow> bool" where
  "hasSubstring s p \<longleftrightarrow> (\<exists>a b. s = a @ p @ b)"

definition bareAmp :: "string \<Rightarrow> bool" where
  "bareAmp v \<longleftrightarrow> (\<exists>i<length v. v ! i = CHR ''&'' \<and> \<not> knownEntity (drop i v))"

primrec attrValuesN :: "nat \<Rightarrow> string \<Rightarrow> string list" where
  "attrValuesN 0 s = []"
| "attrValuesN (Suc n) s =
     (case attrExec s of None \<Rightarrow> [] | Some (val, rest) \<Rightarrow> val # attrValuesN n rest)"

definition attrValues :: "string \<Rightarrow> string list" where
  "attrValues s = attrValuesN (length s) s"

definition isAmpIssue :: "string \<Rightarrow> bool" where
  "isAmpIssue m \<longleftrightarrow> startsWith m ''unescaped & in DefaultValue: ''"

text \<open>What a list of events shows: the requests issued, the total of the delays asked for.\<close>

fun requests :: "event list \<Rightarrow> nat" where
  "requests [] = 0"
| "requests (Fetch url # evs) = Suc (requests evs)"
| "requests (ev # evs) = requests evs"

fun totalWait :: "event list \<Rightarrow> nat" where
  "totalWait [] = 0"
| "totalWait (Sleep ms # evs) = ms + totalWait evs"
| "totalWait (ev # evs) = totalWait evs"

text \<open>One round of polling that goes on: a request and the delay after it.\<close>

definition rounds :: "nat \<Rightarrow> string \<Rightarrow> nat \<Rightarrow> event list" where
  "rounds n url waitMs = concat (replicate n [Fetch url, Sleep waitMs])"

text \<open>The events by which a termination signal, a reclamation call and a restart show.\<close>

fun isSignal :: "event \<Rightarrow> bool" where
  "isSignal (Kill pid) = True"
| "isSignal ev = False"

fun isReclaim :: "event \<Rightarrow> bool" where
  "isReclaim (Call f) = True"
| "isReclaim ev = False"

fun isRestart :: "event \<Rightarrow> bool" where
  "isRestart (ExecFile file args) = (file = ''osascript'' \<or> file = ''open'')"
| "isRestart ev = False"

text \<open>The error of line 84.\<close>

fun validationError :: "exn \<Rightarrow> bool" where
  "validationError (Error m) = startsWith m ''Manifest invalid: ''"
| "validationError e = False"

text \<open>
  How a piece of the script behaves from a history \<open>tr\<close> on: it keeps the history, the
  events it adds all satisfy \<open>Q\<close>, and an error it throws satisfies \<open>P\<close>.
\<close>

definition behaves :: "(event \<Rightarrow> bool) \<Rightarrow> (exn \<Rightarrow> bool) \<Rightarrow> event list \<Rightarrow> 'a res \<Rightarrow> bool" where
  "behaves Q P tr r \<longleftrightarrow>
     (\<exists>evs. events r = tr @ evs \<and> list_all Q evs) \<and>
     (case r of Ok a t \<Rightarrow> True | Throw e t \<Rightarrow> P e)"

text \<open>The rules by which the behaviour of a composite follows from that of its parts.\<close>

named_theorems behaves_intros

text \<open>An event that is neither a reclamation call nor part of a restart.\<close>

definition plain :: "event \<Rightarrow> bool" where
  "plain ev \<longleftrightarrow> \<not> isReclaim ev \<and> \<not> isRestart ev"

definition benign :: "exn \<Rightarrow> bool" where
  "benign e \<longleftrightarrow> \<not> validationError e"

section \<open>A host for worked examples\<close>

text \<open>
  A machine on which the listener lookup fails, every file-system write succeeds, two pid
  files and one defective manifest exist, and one health target answers from its third
  request on.
\<close>

definition demoHost :: host where
  "demoHost =
     \<lparr> cwd = ''/proj'',
       env_HOME = Some ''/Users/dev'',
       platform = ''darwin'',
       accessSync = (\<lambda>tr p. p = ''/proj/empty.pid'' \<or> p = ''/proj/junk.pid''),
       readFileSync = (\<lambda>tr p.
         if p = ''/proj/empty.pid'' then Inr []
         else if p = ''/proj/junk.pid'' then Inr ''not-a-pid''
         else if p = ''/proj/bad.xml'' then Inr ''<OfficeApp>''
         else Inl ''ENOENT: no such file or directory''),
       mkdirSync = (\<lambda>tr p. Inr ()),
       openSync = (\<lambda>tr p. Inr 3),
       writeFileSync = (\<lambda>tr p d. Inr ()),
       copyFileSync = (\<lambda>tr a b. Inr ()),
       execFileSync = (\<lambda>tr file args. if file = ''lsof'' then Inl ''Command failed: lsof'' else Inr []),
       spawn = (\<lambda>tr cmd. Inr (Some 5151)),
       process_kill = (\<lambda>tr pid. Inr ()),
       fetch = (\<lambda>url i. if url = ''http://up/'' \<and> 2 \<le> i then Response True else FetchThrows),
       path_join = join ''/'',
       path_dirname = (\<lambda>p. ''/proj/.cache/verify''),
       path_basename = (\<lambda>p. ''manifest.xml''),
       formatNumber = (\<lambda>r. ''?'') \<rparr>"

text \<open>What the script computes from an empty argument list on that host.\<close>

definition demoConfig :: config where
  "demoConfig =
     \<lparr> manifestPath = None, appValue = ''word'', port = Finite 4321,
       pidPath = JStr ''/proj/.cache/verify/server.pid'',
       logPath = JStr ''/proj/.cache/verify/server.log'',
       serverCmd = None, healthUrl = ''http://localhost:4321/api/health'',
       sideload = False, restart = False, clearCache = False, validate = True,
       health = True, killPortFlag = True \<rparr>"

section \<open>The validator\<close>

declare attrLoop.simps [simp del]

lemma startsWith_iff: "startsWith s p \<longleftrightarrow> (\<exists>b. s = p @ b)"
  unfolding startsWith_def
  by (metis append_eq_conv_conj append_take_drop_id)

lemma includes_str_iff: "includes_str s p \<longleftrightarrow> hasSubstring s p"
proof (induction s)
  case Nil
  then show ?case by (auto simp: hasSubstring_def)
next
  case (Cons c cs)
  show ?case
  proof
    assume "includes_str (c # cs) p"
    then consider "startsWith (c # cs) p" | "includes_str cs p" by auto
    then show "hasSubstring (c # cs) p"
    proof cases
      case 1
      then obtain b where "c # cs = p @ b" by (auto simp: startsWith_iff)
      then have "c # cs = [] @ p @ b" by simp
      then show ?thesis unfolding hasSubstring_def by blast
    next
      case 2
      then obtain a b where "cs = a @ p @ b" using Cons.IH by (auto simp: hasSubstring_def)
      then have "c # cs = (c # a) @ p @ b" by simp
      then show ?thesis unfolding hasSubstring_def by blast
    qed
  next
    assume "hasSubstring (c # cs) p"
    then obtain a b where ab: "c # cs = a @ p @ b" by (auto simp: hasSubstring_def)
    show "includes_str (c # cs) p"
    proof (cases a)
      case Nil
      with ab have "startsWith (c # cs) p" by (auto simp: startsWith_iff)
      then show ?thesis by simp
    next
      case (Cons a0 as)
      with ab have "cs = as @ p @ b" by simp
      then have "hasSubstring cs p" unfolding hasSubstring_def by blast
      then show ?thesis using Cons.IH by simp
    qed
  qed
qed

lemma knownEntity_amp: "knownEntity (c # cs) \<Longrightarrow> c = CHR ''&''"
  by (auto simp: knownEntity_def startsWith_def)

lemma hasUnescapedAmp_bareAmp: "hasUnescapedAmp v \<longleftrightarrow> bareAmp v"
proof (induction v)
  case Nil
  then show ?case by (simp add: bareAmp_def)
next
  case (Cons c cs)
  have "bareAmp (c # cs) \<longleftrightarrow> (c = CHR ''&'' \<and> \<not> knownEntity (c # cs)) \<or> bareAmp cs"
    unfolding bareAmp_def
  proof
    assume "\<exists>i<length (c # cs). (c # cs) ! i = CHR ''&'' \<and> \<not> knownEntity (drop i (c # cs))"
    then obtain i where i: "i < length (c # cs)" "(c # cs) ! i = CHR ''&''"
      "\<not> knownEntity (drop i (c # cs))" by blast
    show "(c = CHR ''&'' \<and> \<not> knownEntity (c # cs)) \<or>
        (\<exists>i<length cs. cs ! i = CHR ''&'' \<and> \<not> knownEntity (drop i cs))"
    proof (cases i)
      case 0
      with i show ?thesis by simp
    next
      case (Suc j)
      with i have "j < length cs" "cs ! j = CHR ''&''" "\<not> knownEntity (drop j cs)"
        by (simp_all only: length_Cons nth_Cons_Suc drop_Suc_Cons Suc_less_eq simp_thms)
      then show ?thesis by blast
    qed
  next
    assume "(c = CHR ''&'' \<and> \<not> knownEntity (c # cs)) \<or>
        (\<exists>i<length cs. cs ! i = CHR ''&'' \<and> \<not> knownEntity (drop i cs))"
    then show "\<exists>i<length (c # cs). (c # cs) ! i = CHR ''&'' \<and> \<not> knownEntity (drop i (c # cs))"
    proof
      assume "c = CHR ''&'' \<and> \<not> knownEntity (c # cs)"
      then have "0 < length (c # cs) \<and> (c # cs) ! 0 = CHR ''&'' \<and> \<not> knownEntity (drop 0 (c # cs))"
        by auto
      then show ?thesis by blast
    next
      assume "\<exists>i<length cs. cs ! i = CHR ''&'' \<and> \<not> knownEntity (drop i cs)"
      then obtain j where "j < length cs" "cs ! j = CHR ''&''" "\<not> knownEntity (drop j cs)" by blast
      then have "Suc j < length (c # cs) \<and> (c # cs) ! Suc j = CHR ''&'' \<and>
          \<not> knownEntity (drop (Suc j) (c # cs))"
        by (simp only: length_Cons nth_Cons_Suc drop_Suc_Cons Suc_less_eq simp_thms)
      then show ?thesis by blast
    qed
  qed
  then have eq: "bareAmp (c # cs) \<longleftrightarrow> (c = CHR ''&'' \<and> \<not> knownEntity (c # cs)) \<or> hasUnescapedAmp cs"
    by (simp only: Cons.IH)
  show ?case
  proof (cases "c = CHR ''&''")
    case True
    then show ?thesis unfolding eq by (cases "knownEntity (c # cs)") simp_all
  next
    case False
    then show ?thesis unfolding eq by simp
  qed
qed

lemma attrExec_shorter: "attrExec t = Some (v, r) \<Longrightarrow> length r < length t"
proof (induction t)
  case Nil
  then show ?case by simp
next
  case (Cons c cs)
  let ?body = "drop (length attrOpen) (c # cs)"
  let ?rest = "dropWhile (\<lambda>d. d \<noteq> dquote) ?body"
  show ?case
  proof (cases "startsWith (c # cs) attrOpen \<and> ?rest \<noteq> []")
    case True
    then have "attrExec (c # cs) = Some (takeWhile (\<lambda>d. d \<noteq> dquote) ?body, tl ?rest)"
      by (simp only: attrExec.simps Let_def if_True if_False)
    with Cons.prems have r: "r = tl ?rest" by simp
    have "length (tl ?rest) < length ?rest" using True by (cases ?rest) simp_all
    also have "\<dots> \<le> length ?body" by (rule length_dropWhile_le)
    also have "\<dots> \<le> length (c # cs)" by simp
    finally show ?thesis unfolding r .
  next
    case False
    then have "attrExec (c # cs) = attrExec cs"
      by (auto simp only: attrExec.simps Let_def split: if_splits)
    with Cons.prems have "length r < length cs" by (simp only: Cons.IH)
    then show ?thesis by simp
  qed
qed

lemma attrValuesN_enough: "length s \<le> n \<Longrightarrow> attrValuesN n s = attrValuesN (length s) s"
proof (induction n arbitrary: s rule: less_induct)
  case (less n)
  show ?case
  proof (cases "attrExec s")
    case None
    then show ?thesis by (cases n; cases "length s") simp_all
  next
    case (Some p)
    obtain v r where p: "p = (v, r)" by (cases p)
    with Some have lt: "length r < length s" by (auto dest: attrExec_shorter)
    then obtain m where m: "n = Suc m" using less.prems by (cases n) auto
    obtain k where k: "length s = Suc k" using lt by (cases "length s") auto
    have "attrValuesN m r = attrValuesN (length r) r"
      using less.IH [of m r] m less.prems lt by simp
    moreover have "attrValuesN k r = attrValuesN (length r) r"
    proof (cases "k = n")
      case True then show ?thesis using k less.prems by simp
    next
      case False
      then show ?thesis using less.IH [of k r] k less.prems lt by simp
    qed
    ultimately show ?thesis using Some p m k by simp
  qed
qed

lemma attrValues_unfold:
  "attrValues s = (case attrExec s of None \<Rightarrow> [] | Some (v, r) \<Rightarrow> v # attrValues r)"
proof (cases "attrExec s")
  case None
  then show ?thesis by (cases "length s") (simp_all add: attrValues_def)
next
  case (Some p)
  obtain v r where p: "p = (v, r)" by (cases p)
  with Some have lt: "length r < length s" by (auto dest: attrExec_shorter)
  then obtain k where k: "length s = Suc k" by (cases "length s") auto
  have "attrValuesN k r = attrValuesN (length r) r"
    using attrValuesN_enough [of r k] lt k by simp
  then show ?thesis using Some p k by (simp add: attrValues_def)
qed

lemma attrLoop_first_offender:
  "attrValues s = pre @ v # post \<Longrightarrow> \<forall>u\<in>set pre. \<not> hasUnescapedAmp u \<Longrightarrow> hasUnescapedAmp v
   \<Longrightarrow> attrLoop s = [ampIssue v]"
proof (induction pre arbitrary: s)
  case Nil
  then show ?case
    by (subst attrLoop.simps, subst (asm) attrValues_unfold) (auto split: option.splits)
next
  case (Cons u us)
  from Cons.prems(1) obtain r where r: "attrExec s = Some (u, r)" "attrValues r = us @ v # post"
    by (subst (asm) attrValues_unfold) (auto split: option.splits)
  with Cons.prems have "attrLoop r = [ampIssue v]" by (intro Cons.IH) auto
  with r Cons.prems show ?case by (subst attrLoop.simps) auto
qed

lemma attrLoop_no_offender:
  "\<forall>u\<in>set (attrValues s). \<not> hasUnescapedAmp u \<Longrightarrow> attrLoop s = []"
proof (induction s rule: attrLoop.induct)
  case (1 s)
  show ?case
  proof (cases "attrExec s")
    case None
    then show ?thesis by (subst attrLoop.simps) simp
  next
    case (Some p)
    obtain v r where p: "p = (v, r)" by (cases p)
    have av: "attrValues s = v # attrValues r"
      using Some p by (subst attrValues_unfold) simp
    with "1.prems" have nv: "\<not> hasUnescapedAmp v" and "\<forall>u\<in>set (attrValues r). \<not> hasUnescapedAmp u"
      by auto
    then have "attrLoop r = []" using "1.IH" Some p by simp
    then show ?thesis using Some p nv by (subst attrLoop.simps) simp
  qed
qed

lemma not_amp_missing:
  "\<not> isAmpIssue ''missing <OfficeApp>''" "\<not> isAmpIssue ''missing <Id>''"
  "\<not> isAmpIssue ''missing SourceLocation''"
  by (simp_all add: isAmpIssue_def startsWith_def)

lemma isAmpIssue_ampIssue: "isAmpIssue (ampIssue v)"
  by (simp add: isAmpIssue_def ampIssue_def startsWith_def)

lemma filter_validate: "filter isAmpIssue (validateManifestText t) = filter isAmpIssue (attrLoop t)"
  by (simp add: validateManifestText_def not_amp_missing)

text \<open>
  The scan yields no issue or exactly one, and that one carries the ampersand marker.
\<close>

lemma attrLoop_shape: "attrLoop s = [] \<or> (\<exists>v. attrLoop s = [ampIssue v])"
  by (induction s rule: attrLoop.induct)
    (subst attrLoop.simps, subst (2) attrLoop.simps, auto split: option.splits)

lemma attrLoop_only_amp: "m \<in> set (attrLoop s) \<Longrightarrow> isAmpIssue m"
  using attrLoop_shape [of s] isAmpIssue_ampIssue by auto

text \<open>
  Claim C7. For every manifest text, each of the three required substrings that is missing
  has its own marker in the defect list, and only then; the checks are independent of one
  another, so a text that misses any of them gets a non-empty list and a text that misses
  all three gets all three markers; the three markers differ.
\<close>

theorem validator_marks_each_missing_substring:
  "(''missing <OfficeApp>'' \<in> set (validateManifestText t) \<longleftrightarrow> \<not> hasSubstring t ''<OfficeApp'') \<and>
   (''missing <Id>'' \<in> set (validateManifestText t) \<longleftrightarrow> \<not> hasSubstring t ''<Id>'') \<and>
   (''missing SourceLocation'' \<in> set (validateManifestText t) \<longleftrightarrow>
      \<not> hasSubstring t ''SourceLocation'') \<and>
   (\<not> hasSubstring t ''<OfficeApp'' \<or> \<not> hasSubstring t ''<Id>'' \<or> \<not> hasSubstring t ''SourceLocation''
      \<longrightarrow> validateManifestText t \<noteq> []) \<and>
   distinct [''missing <OfficeApp>'', ''missing <Id>'', ''missing SourceLocation'']"
  using attrLoop_only_amp [of "''missing <OfficeApp>''" t] attrLoop_only_amp [of "''missing <Id>''" t]
    attrLoop_only_amp [of "''missing SourceLocation''" t] not_amp_missing
  by (auto simp: validateManifestText_def includes_str_iff)

theorem validator_marks_each_missing_substring_witness:
  "\<not> hasSubstring ''<OfficeApp SourceLocation'' ''<Id>'' \<and>
   hasSubstring ''<OfficeApp SourceLocation'' ''<OfficeApp'' \<and>
   ''missing <Id>'' \<in> set (validateManifestText ''<OfficeApp SourceLocation'') \<and>
   ''missing <OfficeApp>'' \<notin> set (validateManifestText ''<OfficeApp SourceLocation'') \<and>
   validateManifestText ''<OfficeApp SourceLocation'' \<noteq> []"
  using validator_marks_each_missing_substring [of "''<OfficeApp SourceLocation''"]
  by (simp add: includes_str_iff [symmetric] startsWith_def)

text \<open>
  Claim C6. For every manifest text: when some attribute value has a bare ampersand, the
  defect list holds exactly one ampersand defect, and it names the first such value (its
  first 120 characters), whatever attributes come after it; when no attribute value has a
  bare ampersand, or the text has no such attribute, the list holds no ampersand defect.
\<close>

theorem validator_flags_first_bare_ampersand:
  "(attrValues t = pre @ v # post \<and> (\<forall>u\<in>set pre. \<not> bareAmp u) \<and> bareAmp v
      \<longrightarrow> filter isAmpIssue (validateManifestText t) = [ampIssue v]) \<and>
   ((\<forall>u\<in>set (attrValues t). \<not> bareAmp u)
      \<longrightarrow> filter isAmpIssue (validateManifestText t) = [])"
  by (auto simp: filter_validate attrLoop_first_offender attrLoop_no_offender
      hasUnescapedAmp_bareAmp [symmetric] isAmpIssue_ampIssue)

theorem validator_flags_first_bare_ampersand_witness:
  "attrValues (attrOpen @ ''a&amp;b'' @ [dquote] @ '' '' @ attrOpen @ ''c&d'' @ [dquote] @ '' '' @
      attrOpen @ ''e&f'' @ [dquote]) = [''a&amp;b''] @ ''c&d'' # [''e&f''] \<and>
   \<not> bareAmp ''a&amp;b'' \<and> bareAmp ''c&d'' \<and> bareAmp ''e&f'' \<and>
   filter isAmpIssue (validateManifestText (attrOpen @ ''a&amp;b'' @ [dquote] @ '' '' @
      attrOpen @ ''c&d'' @ [dquote] @ '' '' @ attrOpen @ ''e&f'' @ [dquote])) =
     [''unescaped & in DefaultValue: c&d''] \<and>
   attrValues (attrOpen @ ''a&amp;b'' @ [dquote]) = [''a&amp;b''] \<and>
   filter isAmpIssue (validateManifestText (attrOpen @ ''a&amp;b'' @ [dquote])) = []"
  using validator_flags_first_bare_ampersand [of "attrOpen @ ''a&amp;b'' @ [dquote] @ '' '' @
      attrOpen @ ''c&d'' @ [dquote] @ '' '' @ attrOpen @ ''e&f'' @ [dquote]"
      "[''a&amp;b'']" "''c&d''" "[''e&f'']"]
    validator_flags_first_bare_ampersand [of "attrOpen @ ''a&amp;b'' @ [dquote]" "[]" "[]" "[]"]
  by (simp add: attrValues_unfold attrOpen_def dquote_def startsWith_def
      hasUnescapedAmp_bareAmp [symmetric] knownEntity_def ampIssue_def)

section \<open>Health polling\<close>

declare healthLoop.simps [simp del]

lemma requests_append: "requests (xs @ ys) = requests xs + requests ys"
  by (induction xs rule: requests.induct) simp_all

lemma totalWait_append: "totalWait (xs @ ys) = totalWait xs + totalWait ys"
  by (induction xs rule: totalWait.induct) simp_all

lemma rounds_Suc: "rounds (Suc n) url w = [Fetch url, Sleep w] @ rounds n url w"
  by (simp add: rounds_def)

lemma requests_rounds: "requests (rounds n url w) = n"
  by (induction n) (simp_all add: rounds_def)

lemma totalWait_rounds: "totalWait (rounds n url w) = n * w"
  by (induction n) (simp_all add: rounds_def)

lemma healthLoop_exhausted:
  "i \<le> m \<Longrightarrow> \<forall>j. i \<le> j \<and> j < m \<longrightarrow> target j \<noteq> Response True \<Longrightarrow>
   healthLoop target url m w i tr =
     Throw (Error (''server not healthy at '' @ url)) (tr @ rounds (m - i) url w)"
proof (induction "m - i" arbitrary: i tr)
  case 0
  then show ?case by (subst healthLoop.simps) (simp add: rounds_def)
next
  case (Suc d)
  then have lt: "i < m" and d: "d = m - (i + 1)" and le: "i + 1 \<le> m" by simp_all
  have "healthLoop target url m w (i + 1) (tr @ [Fetch url, Sleep w]) =
      Throw (Error (''server not healthy at '' @ url)) ((tr @ [Fetch url, Sleep w]) @ rounds (m - (i + 1)) url w)"
    using Suc.prems(2) by (intro Suc.hyps(1) d le) auto
  moreover have "m - i = Suc (m - (i + 1))" using lt by simp
  moreover have "target i \<noteq> Response True" using Suc.prems(2) lt by simp
  ultimately show ?case using lt by (subst healthLoop.simps) (simp add: rounds_Suc)
qed

lemma healthLoop_succeeds:
  "i \<le> j \<Longrightarrow> j < m \<Longrightarrow> \<forall>l. i \<le> l \<and> l < j \<longrightarrow> target l \<noteq> Response True \<Longrightarrow>
   target j = Response True \<Longrightarrow>
   healthLoop target url m w i tr = Ok True (tr @ rounds (j - i) url w @ [Fetch url])"
proof (induction "j - i" arbitrary: i tr)
  case 0
  then have "i = j" by simp
  with 0 show ?case by (subst healthLoop.simps) (simp add: rounds_def)
next
  case (Suc d)
  then have lt: "i < j" and d: "d = j - (i + 1)" and le: "i + 1 \<le> j" by simp_all
  have "healthLoop target url m w (i + 1) (tr @ [Fetch url, Sleep w]) =
      Ok True ((tr @ [Fetch url, Sleep w]) @ rounds (j - (i + 1)) url w @ [Fetch url])"
    using Suc.prems by (intro Suc.hyps(1) d le) auto
  moreover have "j - i = Suc (j - (i + 1))" using lt by simp
  moreover have "target i \<noteq> Response True" using Suc.prems(3) lt by simp
  ultimately show ?case using lt Suc.prems(2) by (subst healthLoop.simps) (simp add: rounds_Suc)
qed

lemma last_rounds: "n \<noteq> 0 \<Longrightarrow> last (rounds n url w) = Sleep w"
  by (induction n) (simp_all add: rounds_def)

text \<open>
  Claim C3. When no request of the budget gets a successful response, \<^verbatim>\<open>waitForHealth\<close>
  issues exactly \<open>maxAttempts\<close> requests (the count passed, or 12 when it is 0), asks for a
  delay after every one of them, the last included, so that the delays asked for add up to
  \<open>maxAttempts\<close> times the delay in force, which is at least \<open>(maxAttempts - 1) * delayMs\<close>,
  and then throws an error whose message names the URL. It makes no other event.
\<close>

theorem waitForHealth_exhausts_budget:
  assumes "\<forall>i < orDefault attempts 12. target i \<noteq> Response True"
  shows "\<exists>evs. waitForHealth target url attempts delayMs tr =
             Throw (Error (''server not healthy at '' @ url)) (tr @ evs) \<and>
           evs = rounds (orDefault attempts 12) url (orDefault delayMs 400) \<and>
           requests evs = orDefault attempts 12 \<and>
           last evs = Sleep (orDefault delayMs 400) \<and>
           totalWait evs = orDefault attempts 12 * orDefault delayMs 400 \<and>
           (orDefault attempts 12 - 1) * delayMs \<le> totalWait evs"
proof -
  have "(orDefault attempts 12 - 1) * delayMs \<le> orDefault attempts 12 * orDefault delayMs 400"
    by (rule mult_le_mono) (simp_all add: orDefault_def)
  moreover have "orDefault attempts 12 \<noteq> 0" by (simp add: orDefault_def)
  ultimately show ?thesis
    using healthLoop_exhausted [of 0 "orDefault attempts 12" target url "orDefault delayMs 400" tr] assms
    by (simp add: waitForHealth_def requests_rounds totalWait_rounds last_rounds)
qed

theorem waitForHealth_exhausts_budget_witness:
  "waitForHealth (\<lambda>i. FetchThrows) ''http://down/'' 3 50 [] =
     Throw (Error ''server not healthy at http://down/'')
       [Fetch ''http://down/'', Sleep 50, Fetch ''http://down/'', Sleep 50,
        Fetch ''http://down/'', Sleep 50] \<and>
   requests (rounds (orDefault 3 12) ''http://down/'' (orDefault 50 400)) = 3 \<and>
   totalWait (rounds (orDefault 3 12) ''http://down/'' (orDefault 50 400)) = 150"
  using waitForHealth_exhausts_budget [of 3 "\<lambda>i. FetchThrows" "''http://down/''" 50 "[]"]
  by (simp add: orDefault_def rounds_def eval_nat_numeral)

text \<open>
  Claim C4. When the first successful response comes on attempt \<open>k\<close>, with \<open>k\<close> within the
  budget, \<^verbatim>\<open>waitForHealth\<close> issues exactly \<open>k\<close> requests, with a delay after each of the
  \<open>k - 1\<close> failed ones, and returns \<^verbatim>\<open>true\<close> right after the \<open>k\<close>-th request: that request is
  its last event, no delay and no request follows it.
\<close>

theorem waitForHealth_returns_at_first_success:
  assumes "1 \<le> k" and "k \<le> orDefault attempts 12"
    and "\<forall>i < k - 1. target i \<noteq> Response True" and "target (k - 1) = Response True"
  shows "\<exists>evs. waitForHealth target url attempts delayMs tr = Ok True (tr @ evs) \<and>
           evs = rounds (k - 1) url (orDefault delayMs 400) @ [Fetch url] \<and>
           requests evs = k \<and> last evs = Fetch url"
  using healthLoop_succeeds [of 0 "k - 1" "orDefault attempts 12" target url "orDefault delayMs 400" tr]
    assms
  by (simp add: waitForHealth_def requests_rounds requests_append)

theorem waitForHealth_returns_at_first_success_witness:
  "(1::nat) \<le> 3 \<and> 3 \<le> orDefault 0 12 \<and>
   fetch demoHost ''http://up/'' 0 \<noteq> Response True \<and>
   fetch demoHost ''http://up/'' 1 \<noteq> Response True \<and>
   fetch demoHost ''http://up/'' (3 - 1) = Response True \<and>
   waitForHealth (fetch demoHost ''http://up/'') ''http://up/'' 0 0 [] =
     Ok True [Fetch ''http://up/'', Sleep 400, Fetch ''http://up/'', Sleep 400, Fetch ''http://up/'']"
  using waitForHealth_returns_at_first_success
    [of 3 0 "fetch demoHost ''http://up/''" "''http://up/''" 0 "[]"]
  by (simp add: orDefault_def rounds_def eval_nat_numeral demoHost_def)

section \<open>Reclaiming the port\<close>

lemma kill_swallowed: "ignoreErrors (kill h pid tr) = Ok () (tr @ [Kill pid])"
  by (simp add: kill_def callHost_def split: sum.splits)

lemma killEach_ok: "\<exists>evs. killEach h pids tr = Ok () (tr @ evs)"
proof (induction pids arbitrary: tr)
  case Nil
  then show ?case by simp
next
  case (Cons pid pids)
  obtain evs where "killEach h pids (tr @ [Kill pid]) = Ok () ((tr @ [Kill pid]) @ evs)"
    using Cons.IH by blast
  then show ?case by (simp add: kill_swallowed)
qed

text \<open>
  Claim C9. For every port value, every host and every history, \<^verbatim>\<open>killPort\<close> returns and
  does not throw: a lookup that fails, an output that parses to no pid, and a signal that
  fails all end in a normal return, and the events made stay in the record.
\<close>

theorem killPort_never_throws: "\<exists>evs. killPort h n tr = Ok () (tr @ evs)"
proof (cases "numFalsy n")
  case True
  then show ?thesis by (simp add: killPort_def)
next
  case False
  let ?ev = "ExecFile ''lsof'' [''-nP'', ''-iTCP:'' @ numToString h n, ''-sTCP:LISTEN'', ''-t'']"
  let ?args = "[''-nP'', ''-iTCP:'' @ numToString h n, ''-sTCP:LISTEN'', ''-t'']"
  show ?thesis
  proof (cases "execFileSync h tr ''lsof'' ?args")
    case (Inl m)
    with False have "killPort h n tr = Ok () (tr @ [?ev])"
      by (simp add: killPort_def execFile_def callHost_def)
    then show ?thesis by blast
  next
    case (Inr out)
    show ?thesis
    proof (cases "js_trim out = []")
      case True
      with False Inr have "killPort h n tr = Ok () (tr @ [?ev])"
        by (simp add: killPort_def execFile_def callHost_def)
      then show ?thesis by blast
    next
      case nonempty: False
      obtain evs where "killEach h
          (filter isFinite (map (\<lambda>line. js_Number_str (js_trim line)) (splitLines [] (js_trim out))))
          (tr @ [?ev]) = Ok () ((tr @ [?ev]) @ evs)"
        using killEach_ok by blast
      with False Inr nonempty have "killPort h n tr = Ok () (tr @ ?ev # evs)"
        by (simp add: killPort_def execFile_def callHost_def)
      then show ?thesis by blast
    qed
  qed
qed

lemma dropWhile_id: "xs \<noteq> [] \<Longrightarrow> \<not> P (hd xs) \<Longrightarrow> dropWhile P xs = xs"
  by (cases xs) simp_all

lemma js_trim_Nil: "js_trim [] = []"
  by (simp add: js_trim_def)

lemma js_Number_str_Nil: "js_Number_str [] = Finite 0"
  by (simp add: js_Number_str_def js_trim_Nil)

lemma js_trim_idem: "js_trim (js_trim s) = js_trim s"
proof (cases "js_trim s = []")
  case True
  then show ?thesis by (simp only: js_trim_Nil)
next
  case False
  let ?W = isWhiteSpace
  let ?u = "dropWhile ?W s"
  let ?r = "dropWhile ?W (rev ?u)"
  have t: "js_trim s = rev ?r" by (simp add: js_trim_def)
  with False have r: "?r \<noteq> []" by simp
  then have u: "?u \<noteq> []" by (metis dropWhile.simps(1) rev.simps(1))
  have hr: "\<not> ?W (hd ?r)" using r by (rule hd_dropWhile)
  have "last ?r = last (rev ?u)"
  proof -
    have "rev ?u = takeWhile ?W (rev ?u) @ ?r" by simp
    then show ?thesis using r by (metis last_appendR)
  qed
  also have "\<dots> = hd ?u" using u by (simp add: last_rev)
  finally have lr: "\<not> ?W (last ?r)" using u hd_dropWhile [of ?W s] by simp
  have "dropWhile ?W (rev ?r) = rev ?r"
    using r lr by (intro dropWhile_id) (simp_all add: hd_rev)
  moreover have "dropWhile ?W ?r = ?r" using r hr by (intro dropWhile_id)
  ultimately show ?thesis unfolding t js_trim_def by simp
qed

lemma js_Number_str_trim: "js_Number_str (js_trim s) = js_Number_str s"
  by (simp add: js_Number_str_def js_trim_idem)

lemma killPidFile_missing_file:
  "\<not> accessSync h tr p \<Longrightarrow> killPidFile h (JStr p) tr = Ok () (if p = [] then tr else tr @ [Access p])"
  by (simp add: killPidFile_def fileExists_def)

lemma killPidFile_not_a_string: "killPidFile h (JBool b) tr = Ok () tr"
  by (simp add: killPidFile_def fileExists_def)

lemma killPidFile_non_numeric:
  "p \<noteq> [] \<Longrightarrow> accessSync h tr p \<Longrightarrow> readFileSync h (tr @ [Access p]) p = Inr content \<Longrightarrow>
   js_Number_str content = NaN \<Longrightarrow>
   killPidFile h (JStr p) tr = Ok () (tr @ [Access p, ReadFile p])"
  by (simp add: killPidFile_def fileExists_def callHost_def js_Number_str_trim Let_def)

text \<open>
  Claim C1, as the code has it. On a pid file that exists and is empty, or holds white
  space only, \<^verbatim>\<open>killPidFile\<close> returns without error but does send a signal: \<^verbatim>\<open>Number\<close> of
  the empty string is 0, which is finite, so \<^verbatim>\<open>process.kill(0)\<close> is called. The lemmas
  above give the other two cases of the claim, where no signal is sent.
\<close>

theorem killPidFile_empty_file_signals:
  "p \<noteq> [] \<Longrightarrow> accessSync h tr p \<Longrightarrow> readFileSync h (tr @ [Access p]) p = Inr content \<Longrightarrow>
   js_trim content = [] \<Longrightarrow>
   killPidFile h (JStr p) tr = Ok () (tr @ [Access p, ReadFile p, Kill (Finite 0)])"
  by (simp add: killPidFile_def fileExists_def callHost_def Let_def js_Number_str_Nil
      kill_swallowed)

theorem killPidFile_empty_file_signals_witness:
  "killPidFile demoHost (JStr ''/proj/empty.pid'') [] =
     Ok () [Access ''/proj/empty.pid'', ReadFile ''/proj/empty.pid'', Kill (Finite 0)] \<and>
   filter isSignal (events (killPidFile demoHost (JStr ''/proj/empty.pid'') [])) = [Kill (Finite 0)]"
  using killPidFile_empty_file_signals [of "''/proj/empty.pid''" demoHost "[]" "[]"]
  by (simp add: demoHost_def js_trim_Nil)

section \<open>Argument resolution\<close>

lemma parseLoop_dom:
  "parseLoop argv out = Inr args \<Longrightarrow> k \<noteq> ''__proto__'' \<Longrightarrow>
   (args k \<noteq> None) = (out k \<noteq> None \<or> (''--'' @ k) \<in> set argv)"
proof (induction argv out rule: parseLoop.induct)
  case (1 out)
  then show ?case by simp
next
  case (2 token rest out)
  show ?case
  proof (cases "startsWith token ''--''")
    case True
    then have tok: "token = ''--'' @ drop 2 token" by (auto simp: startsWith_iff)
    have key: "(''--'' @ k = token) = (k = drop 2 token)" using tok by (metis same_append_eq)
    show ?thesis
    proof (cases rest)
      case Nil
      with True 2 key show ?thesis by (auto simp: setProp_def Let_def split: if_splits)
    next
      case (Cons a rest')
      show ?thesis
      proof (cases "a \<noteq> [] \<and> \<not> startsWith a ''--''")
        case val: True
        then have na: "''--'' @ k \<noteq> a" by (auto simp: startsWith_iff)
        have "parseLoop rest' (setProp out (drop 2 token) (JStr a)) = Inr args"
          using "2.prems"(1) True Cons val by (simp add: Let_def)
        then have "(args k \<noteq> None) =
            (setProp out (drop 2 token) (JStr a) k \<noteq> None \<or> ''--'' @ k \<in> set rest')"
          using "2.IH"(2) True Cons val "2.prems"(2) by simp
        then show ?thesis using Cons key na "2.prems"(2) by (auto simp: setProp_def split: if_splits)
      next
        case flag: False
        have "parseLoop rest (setProp out (drop 2 token) (JBool True)) = Inr args"
          using "2.prems"(1) True Cons flag by (auto simp: Let_def)
        then have "(args k \<noteq> None) =
            (setProp out (drop 2 token) (JBool True) k \<noteq> None \<or> ''--'' @ k \<in> set rest)"
          using "2.IH"(3) True Cons flag "2.prems"(2) by simp
        then show ?thesis using key "2.prems"(2) by (auto simp: setProp_def split: if_splits)
      qed
    qed
  next
    case False
    then have nt: "''--'' @ k \<noteq> token" by (auto simp: startsWith_iff)
    from False "2.prems"(1) obtain xs where xs: "out ''_'' = Some (JArr xs)"
      and rec: "parseLoop rest (out(''_'' \<mapsto> JArr (xs @ [token]))) = Inr args"
      by (auto split: option.splits jsval.splits)
    have "(args k \<noteq> None) =
        ((out(''_'' \<mapsto> JArr (xs @ [token]))) k \<noteq> None \<or> ''--'' @ k \<in> set rest)"
      using "2.IH"(4) [OF False xs refl rec "2.prems"(2)] .
    then show ?thesis using nt xs by (cases "k = ''_''") auto
  qed
qed

lemma parseLoop_truthy:
  "parseLoop argv out = Inr args \<Longrightarrow> (\<And>k v. out k = Some v \<Longrightarrow> truthy v) \<Longrightarrow>
   args k = Some v \<Longrightarrow> truthy v"
proof (induction argv out rule: parseLoop.induct)
  case (1 out)
  then show ?case by simp
next
  case (2 token rest out)
  show ?case
  proof (cases "startsWith token ''--''")
    case True
    show ?thesis
    proof (cases rest)
      case Nil
      with True 2 show ?thesis by (auto simp: setProp_def Let_def split: if_splits)
    next
      case (Cons a rest')
      show ?thesis
      proof (cases "a \<noteq> [] \<and> \<not> startsWith a ''--''")
        case val: True
        have "parseLoop rest' (setProp out (drop 2 token) (JStr a)) = Inr args"
          using "2.prems"(1) True Cons val by (simp add: Let_def)
        moreover have "\<And>k v. setProp out (drop 2 token) (JStr a) k = Some v \<Longrightarrow> truthy v"
          using "2.prems"(2) val by (auto simp: setProp_def split: if_splits)
        ultimately show ?thesis using "2.IH"(2) True Cons val "2.prems"(3) by blast
      next
        case flag: False
        have "parseLoop rest (setProp out (drop 2 token) (JBool True)) = Inr args"
          using "2.prems"(1) True Cons flag by (auto simp: Let_def)
        moreover have "\<And>k v. setProp out (drop 2 token) (JBool True) k = Some v \<Longrightarrow> truthy v"
          using "2.prems"(2) by (auto simp: setProp_def split: if_splits)
        ultimately show ?thesis using "2.IH"(3) True Cons flag "2.prems"(3) by blast
      qed
    qed
  next
    case False
    from False "2.prems"(1) obtain xs where xs: "out ''_'' = Some (JArr xs)"
      and rec: "parseLoop rest (out(''_'' \<mapsto> JArr (xs @ [token]))) = Inr args"
      by (auto split: option.splits jsval.splits)
    moreover have "\<And>k v. (out(''_'' \<mapsto> JArr (xs @ [token]))) k = Some v \<Longrightarrow> truthy v"
      using "2.prems"(2) by (auto split: if_splits)
    ultimately show ?thesis using "2.IH"(4) [OF False xs refl] "2.prems"(3) by blast
  qed
qed

lemma given_parsed:
  assumes "parseArgs argv = Inr args" and "k \<noteq> ''__proto__''" and "k \<noteq> ''_''"
  shows "(given args k \<noteq> None) = ((''--'' @ k) \<in> set argv)"
    and "(args k \<noteq> None) = ((''--'' @ k) \<in> set argv)"
proof -
  show present: "(args k \<noteq> None) = ((''--'' @ k) \<in> set argv)"
    using parseLoop_dom [of argv "[''_'' \<mapsto> JArr []]" args k] assms by (simp add: parseArgs_def)
  have "truthy v" if "args k = Some v" for v
  proof (rule parseLoop_truthy [where out = "[''_'' \<mapsto> JArr []]" and argv = argv
        and args = args and k = k and v = v])
    show "args k = Some v" by (rule that)
  next
    show "parseLoop argv [''_'' \<mapsto> JArr []] = Inr args" using assms(1) by (simp add: parseArgs_def)
  next
    fix k' v'
    assume "[''_'' \<mapsto> JArr []] k' = Some v'"
    then show "truthy v'" by (auto split: if_splits)
  qed
  then show "(given args k \<noteq> None) = ((''--'' @ k) \<in> set argv)"
    using present by (auto simp: given_def split: option.splits)
qed

lemma path_resolve_nonempty: "path_resolve h p \<noteq> []"
  by (simp add: path_resolve_def Let_def)

lemma sideloadOf_default:
  "args ''sideload'' = None \<Longrightarrow> sideloadOf h args = (given args ''manifest'' \<noteq> None)"
  by (auto simp: sideloadOf_def boolArg_def manifestPathOf_def path_resolve_nonempty
      split: option.splits)

lemma restartOf_default: "args ''restart'' = None \<Longrightarrow> restartOf h args = sideloadOf h args"
  by (simp add: restartOf_def boolArg_def)

lemma resolveConfig_fields:
  "resolveConfig h args = Inr cfg \<Longrightarrow>
   manifestPath cfg = manifestPathOf h args \<and> sideload cfg = sideloadOf h args \<and>
   restart cfg = restartOf h args \<and> validate cfg = boolArg args ''validate'' True \<and>
   killPortFlag cfg = boolArg args ''kill-port'' True \<and> health cfg = boolArg args ''health'' True"
  by (auto simp: resolveConfig_def split: sum.splits)

lemma demo_parse_manifest:
  "parseArgs [''--manifest'', ''m.xml''] = Inr [''_'' \<mapsto> JArr [], ''manifest'' \<mapsto> JStr ''m.xml'']"
  by (simp add: parseArgs_def startsWith_def setProp_def)

lemma demo_parse_empty: "parseArgs [] = Inr [''_'' \<mapsto> JArr []]"
  by (simp add: parseArgs_def)

text \<open>
  Claim C5. For every argument list that parses: when \<^verbatim>\<open>--sideload\<close> is not among the
  arguments, the install flag is true exactly when \<^verbatim>\<open>--manifest\<close> is; when \<^verbatim>\<open>--restart\<close> is not
  among them, the restart flag is the install flag as resolved. So a manifest with neither
  flag gives install and restart both true, and none of the three gives both false.
\<close>

theorem install_and_restart_defaults:
  assumes "parseArgs argv = Inr args"
  shows "(''--sideload'' \<notin> set argv \<longrightarrow> sideloadOf h args = (''--manifest'' \<in> set argv)) \<and>
         (''--restart'' \<notin> set argv \<longrightarrow> restartOf h args = sideloadOf h args) \<and>
         (''--manifest'' \<in> set argv \<and> ''--sideload'' \<notin> set argv \<and> ''--restart'' \<notin> set argv
            \<longrightarrow> sideloadOf h args \<and> restartOf h args) \<and>
         (''--manifest'' \<notin> set argv \<and> ''--sideload'' \<notin> set argv \<and> ''--restart'' \<notin> set argv
            \<longrightarrow> \<not> sideloadOf h args \<and> \<not> restartOf h args) \<and>
         (resolveConfig h args = Inr cfg
            \<longrightarrow> sideload cfg = sideloadOf h args \<and> restart cfg = restartOf h args)"
  using given_parsed [OF assms, of "''sideload''"] given_parsed [OF assms, of "''restart''"]
    given_parsed [OF assms, of "''manifest''"]
    sideloadOf_default [of args h] restartOf_default [of args h]
    resolveConfig_fields [of h args cfg]
  by auto

theorem install_and_restart_defaults_witness:
  "parseArgs [''--manifest'', ''m.xml''] = Inr [''_'' \<mapsto> JArr [], ''manifest'' \<mapsto> JStr ''m.xml''] \<and>
   sideloadOf demoHost [''_'' \<mapsto> JArr [], ''manifest'' \<mapsto> JStr ''m.xml''] \<and>
   restartOf demoHost [''_'' \<mapsto> JArr [], ''manifest'' \<mapsto> JStr ''m.xml''] \<and>
   parseArgs [] = Inr [''_'' \<mapsto> JArr []] \<and>
   \<not> sideloadOf demoHost [''_'' \<mapsto> JArr []] \<and> \<not> restartOf demoHost [''_'' \<mapsto> JArr []]"
  using install_and_restart_defaults
      [of "[''--manifest'', ''m.xml'']" "[''_'' \<mapsto> JArr [], ''manifest'' \<mapsto> JStr ''m.xml'']" demoHost]
    install_and_restart_defaults [of "[]" "[''_'' \<mapsto> JArr []]" demoHost]
    demo_parse_manifest demo_parse_empty
  by simp

section \<open>What each step may do\<close>

lemma behaves_Ok [behaves_intros]: "behaves Q P tr (Ok a tr)"
  by (simp add: behaves_def)

lemma behaves_Throw [behaves_intros]: "P e \<Longrightarrow> behaves Q P tr (Throw e tr)"
  by (simp add: behaves_def)

lemma behaves_callHost [behaves_intros]:
  "Q ev \<Longrightarrow> (\<And>m. P (HostError m)) \<Longrightarrow> behaves Q P tr (callHost ev answer tr)"
  by (cases answer) (simp_all add: behaves_def callHost_def)

lemma behaves_andThen [behaves_intros]:
  assumes "behaves Q P tr r" and "\<And>a tr'. behaves Q P tr' (f a tr')"
  shows "behaves Q P tr (andThen r f)"
proof (cases r)
  case (Ok a t)
  with assms(1) obtain evs where t: "t = tr @ evs" "list_all Q evs" by (auto simp: behaves_def)
  from assms(2) [of t a] obtain evs' where
    f: "events (f a t) = t @ evs'" "list_all Q evs'"
    "case f a t of Ok a t \<Rightarrow> True | Throw e t \<Rightarrow> P e" by (auto simp: behaves_def)
  have "events (f a t) = tr @ (evs @ evs')" "list_all Q (evs @ evs')" using t f by simp_all
  then show ?thesis using Ok f(3) unfolding behaves_def by (metis andThen.simps(1))
next
  case (Throw e t)
  with assms(1) show ?thesis by (simp add: behaves_def)
qed

lemma behaves_ignoreErrors [behaves_intros]:
  "behaves Q (\<lambda>e. True) tr r \<Longrightarrow> behaves Q P tr (ignoreErrors r)"
  by (cases r) (simp_all add: behaves_def)

lemma behaves_weaken:
  "behaves Q P tr r \<Longrightarrow> (\<And>ev. Q ev \<Longrightarrow> Q' ev) \<Longrightarrow> (\<And>e. P e \<Longrightarrow> P' e) \<Longrightarrow> behaves Q' P' tr r"
  unfolding behaves_def by (auto simp: list_all_iff split: res.splits)

lemma behaves_filter:
  "behaves Q P tr r \<Longrightarrow> (\<And>ev. Q ev \<Longrightarrow> \<not> R ev) \<Longrightarrow> filter R (events r) = filter R tr"
  unfolding behaves_def by (auto simp: list_all_iff filter_empty_conv)

lemma behaves_execFile [behaves_intros]:
  "Q (ExecFile file args) \<Longrightarrow> (\<And>m. P (HostError m)) \<Longrightarrow> behaves Q P tr (execFile h file args tr)"
  unfolding execFile_def by (rule behaves_callHost)

lemma behaves_kill [behaves_intros]:
  "Q (Kill pid) \<Longrightarrow> (\<And>m. P (HostError m)) \<Longrightarrow> behaves Q P tr (kill h pid tr)"
  unfolding kill_def by (rule behaves_callHost)

lemma behaves_fileExists [behaves_intros]:
  "(\<And>p. Q (Access p)) \<Longrightarrow> behaves Q P tr (fileExists h path tr)"
  by (cases path) (simp_all add: fileExists_def behaves_def)

lemma behaves_ensureDir [behaves_intros]:
  "Q (Mkdir d) \<Longrightarrow> (\<And>m. P (HostError m)) \<Longrightarrow> behaves Q P tr (ensureDir h d tr)"
  unfolding ensureDir_def by (rule behaves_callHost)

lemma plain_simps [simp]:
  "plain (Access p)" "plain (ReadFile p)" "plain (Mkdir p)" "plain (OpenAppend p)"
  "plain (WriteFile p d)" "plain (CopyFile a b)" "plain (Spawn c)" "plain (Kill n)"
  "plain (Fetch u)" "plain (Sleep ms)" "plain (Stdout x)" "\<not> plain (Call f)"
  "plain (ExecFile file args) \<longleftrightarrow> file \<noteq> ''osascript'' \<and> file \<noteq> ''open''"
  by (simp_all add: plain_def)

lemma benign_simps [simp]:
  "benign (HostError m)" "benign (TypeError m)"
  "benign (Error m) \<longleftrightarrow> \<not> startsWith m ''Manifest invalid: ''"
  by (simp_all add: benign_def)

lemma behaves_killEach: "behaves plain benign tr (killEach h pids tr)"
  by (induction pids arbitrary: tr) (auto intro!: behaves_intros)

lemma behaves_killPort: "behaves plain benign tr (killPort h n tr)"
  unfolding killPort_def Let_def
  by (auto intro!: behaves_intros behaves_weaken [OF behaves_killEach])

lemma behaves_killPidFile: "behaves plain benign tr (killPidFile h path tr)"
  unfolding killPidFile_def Let_def
  by (auto intro!: behaves_intros)

lemma behaves_dirname: "behaves Q benign tr (dirname h p tr)"
  by (cases p) (simp_all add: dirname_def behaves_def)

lemma behaves_startServerDetached:
  "behaves plain benign tr (startServerDetached h cmd pidp logp tr)"
  unfolding startServerDetached_def
  by (auto intro!: behaves_intros behaves_dirname split: option.splits)

lemma behaves_validateManifestFile: "behaves plain (\<lambda>e. True) tr (validateManifestFile h p tr)"
  unfolding validateManifestFile_def Let_def
  by (auto intro!: behaves_intros)

lemma behaves_validateStep: "behaves plain (\<lambda>e. True) tr (validateStep h cfg tr)"
  unfolding validateStep_def
  by (auto intro!: behaves_intros behaves_validateManifestFile split: option.splits)

lemma behaves_findTrashBin: "behaves plain benign tr (findTrashBin h tr)"
proof -
  have "behaves plain benign tr (execFile h ''which'' [''trash''] tr)"
    by (auto intro!: behaves_intros)
  then show ?thesis
    unfolding findTrashBin_def behaves_def by (auto split: res.splits)
qed

lemma behaves_trashEach: "behaves plain benign tr (trashEach h ''trash'' targets tr)"
  by (induction targets arbitrary: tr) (auto intro!: behaves_intros)

lemma behaves_trans:
  "behaves Q P' tr r0 \<Longrightarrow> behaves Q P (events r0) r \<Longrightarrow> behaves Q P tr r"
  unfolding behaves_def by (metis append.assoc list_all_append)

lemma behaves_trashPaths: "behaves plain benign tr (trashPaths h targets tr)"
proof -
  let ?r0 = "execFile h ''which'' [''trash''] tr"
  have r0: "behaves plain (\<lambda>e. True) tr ?r0" by (auto intro!: behaves_intros)
  show ?thesis
  proof (cases ?r0)
    case (Ok out t)
    then have "trashPaths h targets tr = trashEach h ''trash'' targets t"
      by (simp add: trashPaths_def findTrashBin_def)
    moreover have "behaves plain benign (events ?r0) (trashEach h ''trash'' targets t)"
      using Ok behaves_trashEach [of t h targets] by simp
    ultimately show ?thesis using behaves_trans [OF r0] by simp
  next
    case (Throw e t)
    then have "trashPaths h targets tr =
        Throw (Error ''trash command not found (install or skip --clear-cache)'') t"
      by (simp add: trashPaths_def findTrashBin_def)
    moreover have "behaves plain benign (events ?r0)
        (Throw (Error ''trash command not found (install or skip --clear-cache)'') t :: unit res)"
      using Throw by (auto intro!: behaves_intros simp: startsWith_def)
    ultimately show ?thesis using behaves_trans [OF r0] by simp
  qed
qed

lemma behaves_clearEach: "behaves plain benign tr (clearEach h apps tr)"
  by (induction apps arbitrary: tr) (auto intro!: behaves_intros behaves_trashPaths)

lemma resolveAppTargets_error:
  "resolveAppTargets app = Inl e \<Longrightarrow> e = Error ''app must be word, excel, or both''"
  by (auto simp: resolveAppTargets_def Let_def split: if_splits)

lemma resolveAppTargets_apps:
  "resolveAppTargets app = Inr apps \<Longrightarrow> set apps \<subseteq> {''Microsoft Word'', ''Microsoft Excel''}"
  by (auto simp: resolveAppTargets_def Let_def split: if_splits)

lemma behaves_clearOfficeCache: "behaves plain benign tr (clearOfficeCache h app tr)"
  unfolding clearOfficeCache_def
  by (auto intro!: behaves_intros behaves_clearEach simp: startsWith_def
      dest!: resolveAppTargets_error split: sum.splits)

lemma behaves_copyEach: "behaves plain benign tr (copyEach h p dirs tr)"
  by (induction dirs arbitrary: tr) (auto intro!: behaves_intros)

lemma behaves_sideloadMacManifest: "behaves plain benign tr (sideloadMacManifest h p app tr)"
  unfolding sideloadMacManifest_def Let_def
  by (auto intro!: behaves_intros behaves_copyEach simp: startsWith_def)

lemma behaves_clearCacheStep: "behaves plain benign tr (clearCacheStep h cfg tr)"
  unfolding clearCacheStep_def by (auto intro!: behaves_intros behaves_clearOfficeCache)

lemma behaves_sideloadStep: "behaves plain benign tr (sideloadStep h cfg tr)"
  unfolding sideloadStep_def
  by (auto intro!: behaves_intros behaves_sideloadMacManifest simp: startsWith_def
      split: option.splits)

lemma behaves_installPhase_plain: "behaves plain (\<lambda>e. True) tr (installPhase h cfg tr)"
  unfolding installPhase_def
  by (intro behaves_andThen behaves_validateStep
      behaves_weaken [OF behaves_clearCacheStep] behaves_weaken [OF behaves_sideloadStep]) simp_all

lemma behaves_healthLoop: "behaves plain benign tr (healthLoop target url m w i tr)"
proof (induction target url m w i tr rule: healthLoop.induct)
  case (1 target url m w i tr)
  show ?case
  proof (cases "i < m \<and> target i \<noteq> Response True")
    case True
    have "behaves plain benign (tr @ [Fetch url, Sleep w])
        (healthLoop target url m w (i + 1) (tr @ [Fetch url, Sleep w]))"
      using True by (intro "1.IH") simp_all
    then have "behaves plain benign tr (healthLoop target url m w (i + 1) (tr @ [Fetch url, Sleep w]))"
      unfolding behaves_def by auto
    then show ?thesis using True by (subst healthLoop.simps) simp
  next
    case False
    then show ?thesis
      by (subst healthLoop.simps) (auto simp: behaves_def startsWith_def)
  qed
qed

lemma behaves_healthStep: "behaves plain benign tr (healthStep h cfg tr)"
  unfolding healthStep_def waitForHealth_def Let_def
  by (auto intro!: behaves_intros behaves_healthLoop)

lemma behaves_restartEach:
  "behaves (\<lambda>ev. \<not> isReclaim ev) benign tr (restartEach h apps tr)"
  by (induction apps arbitrary: tr) (auto intro!: behaves_intros)

lemma behaves_restartStep: "behaves (\<lambda>ev. \<not> isReclaim ev) benign tr (restartStep h cfg tr)"
  unfolding restartStep_def restartApps_def
  by (auto intro!: behaves_intros behaves_restartEach simp: startsWith_def
      dest!: resolveAppTargets_error split: sum.splits)

lemma behaves_reclaimStep:
  "behaves plain benign (tr @ [Call (if killPortFlag cfg then ''killPort'' else ''killPidFile'')])
     (reclaimStep h cfg tr)"
  unfolding reclaimStep_def by (simp add: behaves_killPort behaves_killPidFile)

lemma andThen_assoc: "andThen (andThen r f) g = andThen r (\<lambda>a tr. andThen (f a tr) g)"
  by (cases r) simp_all

lemma behaves_after: "behaves Q P (tr @ [ev]) r \<Longrightarrow> Q ev \<Longrightarrow> behaves Q P tr r"
  unfolding behaves_def by (auto simp: list_all_iff)

lemma behaves_reclaimStep_no_restart:
  "behaves (\<lambda>ev. \<not> isRestart ev) (\<lambda>e. True) tr (reclaimStep h cfg tr)"
  by (rule behaves_after [OF behaves_weaken [OF behaves_reclaimStep]]) (simp_all add: plain_def)

lemma behaves_launchPhase:
  "behaves (\<lambda>ev. \<not> isRestart ev) (\<lambda>e. True) tr (launchPhase h cfg tr)"
  unfolding launchPhase_def
  by (intro behaves_andThen behaves_reclaimStep_no_restart
      behaves_weaken [OF behaves_installPhase_plain]
      behaves_weaken [OF behaves_startServerDetached]) (simp_all add: plain_def)

text \<open>The part of the pipeline that follows a reclamation step.\<close>

lemma behaves_after_reclaim:
  "behaves (\<lambda>ev. \<not> isReclaim ev) (\<lambda>e. True) tr
     (andThen (startServerDetached h (serverCmd cfg) (pidPath cfg) (logPath cfg) tr) (\<lambda>pid tr.
      andThen (healthStep h cfg tr) (\<lambda>ok tr.
      andThen (restartStep h cfg tr) (\<lambda>u tr.
      Ok () (tr @ [Stdout (okLine h cfg pid)])))))"
  by (intro behaves_andThen behaves_weaken [OF behaves_startServerDetached]
      behaves_weaken [OF behaves_healthStep] behaves_weaken [OF behaves_restartStep])
    (simp_all add: plain_def behaves_def)

lemma pipeline_unfold:
  "pipeline h cfg tr =
     andThen (installPhase h cfg tr) (\<lambda>u tr.
     andThen (reclaimStep h cfg tr) (\<lambda>u tr.
     andThen (startServerDetached h (serverCmd cfg) (pidPath cfg) (logPath cfg) tr) (\<lambda>pid tr.
     andThen (healthStep h cfg tr) (\<lambda>ok tr.
     andThen (restartStep h cfg tr) (\<lambda>u tr.
     Ok () (tr @ [Stdout (okLine h cfg pid)]))))))"
  by (simp add: pipeline_def launchPhase_def andThen_assoc)

lemma pipeline_reclaims:
  "filter isReclaim (events (pipeline h cfg tr)) =
     filter isReclaim tr @
     (case installPhase h cfg tr of
        Ok u t \<Rightarrow> [Call (if killPortFlag cfg then ''killPort'' else ''killPidFile'')]
      | Throw e t \<Rightarrow> [])"
proof (cases "installPhase h cfg tr")
  case (Ok u t)
  let ?c = "Call (if killPortFlag cfg then ''killPort'' else ''killPidFile'')"
  let ?rest = "andThen (reclaimStep h cfg t) (\<lambda>u tr.
     andThen (startServerDetached h (serverCmd cfg) (pidPath cfg) (logPath cfg) tr) (\<lambda>pid tr.
     andThen (healthStep h cfg tr) (\<lambda>ok tr.
     andThen (restartStep h cfg tr) (\<lambda>u tr.
     Ok () (tr @ [Stdout (okLine h cfg pid)])))))"
  have "behaves (\<lambda>ev. \<not> isReclaim ev) (\<lambda>e. True) (t @ [?c]) ?rest"
    by (intro behaves_andThen behaves_after_reclaim behaves_weaken [OF behaves_reclaimStep])
      (simp_all add: plain_def)
  then have "filter isReclaim (events ?rest) = filter isReclaim (t @ [?c])"
    by (rule behaves_filter) simp
  moreover have "filter isReclaim t = filter isReclaim tr"
    using behaves_filter [OF behaves_installPhase_plain [of tr h cfg], of isReclaim] Ok
    by (simp add: plain_def)
  ultimately show ?thesis using Ok by (simp add: pipeline_unfold)
next
  case (Throw e t)
  moreover have "filter isReclaim t = filter isReclaim tr"
    using behaves_filter [OF behaves_installPhase_plain [of tr h cfg], of isReclaim] Throw
    by (simp add: plain_def)
  ultimately show ?thesis by (simp add: pipeline_unfold)
qed

lemma healthStep_exhausted:
  "health cfg \<Longrightarrow> \<forall>i<12. fetch h (healthUrl cfg) i \<noteq> Response True \<Longrightarrow>
   healthStep h cfg tr =
     Throw (Error (''server not healthy at '' @ healthUrl cfg)) (tr @ rounds 12 (healthUrl cfg) 400)"
  using healthLoop_exhausted [of 0 12 "fetch h (healthUrl cfg)" "healthUrl cfg" 400 tr]
  by (simp add: healthStep_def waitForHealth_def orDefault_def)

lemma isRestart_rounds: "filter isRestart (rounds n url w) = []"
  by (induction n) (simp_all add: rounds_def)

lemma validateStep_no_manifest: "manifestPath cfg = None \<Longrightarrow> validateStep h cfg tr = Ok () tr"
  by (simp add: validateStep_def)

lemma behaves_reclaimStep_benign: "behaves (\<lambda>ev. True) benign tr (reclaimStep h cfg tr)"
  by (rule behaves_after [OF behaves_weaken [OF behaves_reclaimStep]]) simp_all

lemma behaves_pipeline_no_manifest:
  assumes "manifestPath cfg = None"
  shows "behaves (\<lambda>ev. True) benign tr (pipeline h cfg tr)"
proof -
  have "behaves (\<lambda>ev. True) benign tr (installPhase h cfg tr)"
    unfolding installPhase_def validateStep_no_manifest [OF assms]
    by (simp, intro behaves_andThen behaves_weaken [OF behaves_clearCacheStep]
        behaves_weaken [OF behaves_sideloadStep]) simp_all
  then show ?thesis
    unfolding pipeline_unfold
    by (intro behaves_andThen behaves_weaken [OF behaves_reclaimStep_benign]
        behaves_weaken [OF behaves_startServerDetached]
        behaves_weaken [OF behaves_healthStep] behaves_weaken [OF behaves_restartStep])
      (simp_all add: behaves_def)
qed

section \<open>The orchestrator\<close>

text \<open>Runs on the example host, step by step.\<close>

lemma numToString_4321: "numToString h (Finite 4321) = ''4321''"
  by (simp add: numToString_def char_of_def bit_Suc_0_iff)

lemma toLowerCase_word: "toLowerCase ''word'' = ''word''"
  by (simp add: toLowerCase_def lowerChar_def)

lemma demo_resolve_empty: "resolveConfig demoHost [''_'' \<mapsto> JArr []] = Inr demoConfig"
  by (simp add: resolveConfig_def appValueOf_def given_def toLowerCase_word portOf_def
      numToString_4321 sideloadOf_def restartOf_def manifestPathOf_def boolArg_def demoConfig_def
      demoHost_def)

lemma demo_launch:
  "launchPhase demoHost demoConfig [] =
     Ok None [Call ''killPort'',
       ExecFile ''lsof'' [''-nP'', ''-iTCP:4321'', ''-sTCP:LISTEN'', ''-t'']]"
  by (simp add: launchPhase_def installPhase_def validateStep_def clearCacheStep_def
      sideloadStep_def reclaimStep_def killPort_def execFile_def callHost_def
      startServerDetached_def numToString_4321 demoConfig_def demoHost_def)

lemma demo_parse_health_off:
  "parseArgs [''--health'', ''false''] = Inr [''_'' \<mapsto> JArr [], ''health'' \<mapsto> JStr ''false'']"
  by (simp add: parseArgs_def startsWith_def setProp_def)

lemma toLowerCase_false: "toLowerCase ''false'' = ''false''"
  by (simp add: toLowerCase_def lowerChar_def)

lemma demo_resolve_health_off:
  "resolveConfig demoHost [''_'' \<mapsto> JArr [], ''health'' \<mapsto> JStr ''false''] =
     Inr (demoConfig\<lparr>health := False\<rparr>)"
  by (simp add: resolveConfig_def appValueOf_def given_def toLowerCase_word toLowerCase_false
      portOf_def numToString_4321 sideloadOf_def restartOf_def manifestPathOf_def boolArg_def
      demoConfig_def demoHost_def)

lemma demo_parse_kill_port_off:
  "parseArgs [''--kill-port'', ''false''] = Inr [''_'' \<mapsto> JArr [], ''kill-port'' \<mapsto> JStr ''false'']"
  by (simp add: parseArgs_def startsWith_def setProp_def)

lemma demo_resolve_kill_port_off:
  "resolveConfig demoHost [''_'' \<mapsto> JArr [], ''kill-port'' \<mapsto> JStr ''false''] =
     Inr (demoConfig\<lparr>killPortFlag := False\<rparr>)"
  by (simp add: resolveConfig_def appValueOf_def given_def toLowerCase_word toLowerCase_false
      portOf_def numToString_4321 sideloadOf_def restartOf_def manifestPathOf_def boolArg_def
      demoConfig_def demoHost_def)

lemma demo_install: "installPhase demoHost (demoConfig\<lparr>killPortFlag := b\<rparr>) [] = Ok () []"
  by (simp add: installPhase_def validateStep_def clearCacheStep_def sideloadStep_def demoConfig_def)

text \<open>
  Claim C2 as stated fails: a run that stops at validation, here on a manifest that lacks
  two of the required substrings, exits with code 1 and has called neither \<^verbatim>\<open>killPort\<close> nor
  \<^verbatim>\<open>killPidFile\<close>.
\<close>

theorem aborted_run_reclaims_nothing:
  "filter isReclaim (effects (run demoHost [''--manifest'', ''bad.xml''])) = [] \<and>
   exitCode (run demoHost [''--manifest'', ''bad.xml'']) = 1"
  by (simp add: run_def main_def parseArgs_def startsWith_def setProp_def helpRequested_def
      given_def resolveConfig_def appValueOf_def toLowerCase_def lowerChar_def
      pipeline_def launchPhase_def installPhase_def validateStep_def manifestPathOf_def
      path_resolve_def demoHost_def validateManifestFile_def callHost_def
      validateManifestText_def attrLoop.simps boolArg_def Let_def)

text \<open>
  Claim C2, amended. No run calls the reclamation functions more than once in total, so
  never both. A run that gets past the help request, the resolution of the arguments,
  validation, cache clearing and sideload makes exactly one such call: \<^verbatim>\<open>killPort\<close> when the
  kill-port flag is true, \<^verbatim>\<open>killPidFile\<close> otherwise.
\<close>

theorem reclamation_at_most_once:
  "length (filter isReclaim (effects (run h argv))) \<le> 1 \<and>
   (parseArgs argv = Inr args \<and> \<not> helpRequested args \<and> resolveConfig h args = Inr cfg \<and>
    installPhase h cfg [] = Ok u tr1
      \<longrightarrow> filter isReclaim (effects (run h argv)) =
            [Call (if killPortFlag cfg then ''killPort'' else ''killPidFile'')])"
proof -
  have eff: "effects (run h argv) = events (main h argv)"
    by (cases "main h argv") (simp_all add: run_def)
  show ?thesis
    unfolding eff main_def
    by (auto simp: pipeline_reclaims split: sum.splits res.splits)
qed

theorem reclamation_at_most_once_witness:
  "filter isReclaim (effects (run demoHost [''--kill-port'', ''false''])) = [Call ''killPidFile''] \<and>
   filter isReclaim (effects (run demoHost [])) = [Call ''killPort'']"
  using reclamation_at_most_once [of demoHost "[''--kill-port'', ''false'']"
      "[''_'' \<mapsto> JArr [], ''kill-port'' \<mapsto> JStr ''false'']" "demoConfig\<lparr>killPortFlag := False\<rparr>" "()" "[]"]
    reclamation_at_most_once [of demoHost "[]" "[''_'' \<mapsto> JArr []]" demoConfig "()" "[]"]
    demo_parse_kill_port_off demo_resolve_kill_port_off demo_install [of False]
    demo_parse_empty demo_resolve_empty demo_install [of True]
  by (simp add: helpRequested_def given_def demoConfig_def)

text \<open>
  Claim C8. When a run reaches the health check with every step before it done, and none
  of the 12 requests gets a successful response, the process exits with code 1, its
  standard error is the message that names the URL, its events are those of the steps
  before the health check, all kept, followed by the 12 rounds of polling and nothing
  else, and no event of a restart is among them.
\<close>

theorem health_failure_aborts_before_restart:
  assumes "parseArgs argv = Inr args" and "\<not> helpRequested args"
    and "resolveConfig h args = Inr cfg" and "launchPhase h cfg [] = Ok pid tr1"
    and "health cfg" and "\<forall>i<12. fetch h (healthUrl cfg) i \<noteq> Response True"
  shows "run h argv =
           \<lparr> exitCode = 1,
             stderr = ''server not healthy at '' @ healthUrl cfg @ newline,
             effects = tr1 @ rounds 12 (healthUrl cfg) 400 \<rparr> \<and>
         filter isRestart (effects (run h argv)) = []"
proof -
  have "pipeline h cfg [] =
      Throw (Error (''server not healthy at '' @ healthUrl cfg)) (tr1 @ rounds 12 (healthUrl cfg) 400)"
    using assms(4) healthStep_exhausted [OF assms(5,6)] by (simp add: pipeline_def)
  then have r: "run h argv =
           \<lparr> exitCode = 1,
             stderr = ''server not healthy at '' @ healthUrl cfg @ newline,
             effects = tr1 @ rounds 12 (healthUrl cfg) 400 \<rparr>"
    using assms(1-3) by (simp add: run_def main_def report_def)
  have "filter isRestart tr1 = []"
    using behaves_filter [OF behaves_launchPhase [of "[]" h cfg], of isRestart] assms(4) by simp
  then show ?thesis using r by (simp add: isRestart_rounds)
qed

theorem health_failure_aborts_before_restart_witness:
  "run demoHost [] =
     \<lparr> exitCode = 1,
       stderr = ''server not healthy at http://localhost:4321/api/health'' @ newline,
       effects = [Call ''killPort'',
         ExecFile ''lsof'' [''-nP'', ''-iTCP:4321'', ''-sTCP:LISTEN'', ''-t'']] @
         rounds 12 ''http://localhost:4321/api/health'' 400 \<rparr>"
  using health_failure_aborts_before_restart [of "[]" "[''_'' \<mapsto> JArr []]" demoHost demoConfig None
      "[Call ''killPort'', ExecFile ''lsof'' [''-nP'', ''-iTCP:4321'', ''-sTCP:LISTEN'', ''-t'']]"]
    demo_parse_empty demo_resolve_empty demo_launch
  by (simp add: helpRequested_def given_def) (simp add: demoConfig_def demoHost_def)

text \<open>
  Claim C10. For every argument list that parses, has no \<^verbatim>\<open>--manifest\<close> and resolves to a
  configuration: the manifest path is \<^verbatim>\<open>null\<close>; \<^verbatim>\<open>validate\<close> is true unless \<^verbatim>\<open>--validate\<close>
  is given; the validation step returns with no event and no error, whatever \<^verbatim>\<open>validate\<close>
  is, and the run goes on to cache clearing and sideload; and no error the run throws is a
  validation error.
\<close>

theorem validation_skipped_without_manifest:
  assumes "parseArgs argv = Inr args" and "''--manifest'' \<notin> set argv"
    and "resolveConfig h args = Inr cfg"
  shows "manifestPath cfg = None \<and>
         (''--validate'' \<notin> set argv \<longrightarrow> validate cfg) \<and>
         validateStep h cfg tr = Ok () tr \<and>
         installPhase h cfg tr = andThen (clearCacheStep h cfg tr) (\<lambda>u tr. sideloadStep h cfg tr) \<and>
         (\<forall>e t. main h argv = Throw e t \<longrightarrow> \<not> validationError e)"
proof -
  have none: "manifestPath cfg = None"
    using given_parsed(1) [OF assms(1), of "''manifest''"] assms(2) resolveConfig_fields [OF assms(3)]
    by (simp add: manifestPathOf_def)
  have v: "''--validate'' \<notin> set argv \<longrightarrow> validate cfg"
    using given_parsed(2) [OF assms(1), of "''validate''"] resolveConfig_fields [OF assms(3)]
    by (auto simp: boolArg_def split: option.splits)
  have step: "validateStep h cfg tr = Ok () tr" for tr
    using none by (rule validateStep_no_manifest)
  have "\<not> validationError e" if "main h argv = Throw e t" for e t
  proof (cases "helpRequested args")
    case True
    with that assms(1) show ?thesis by (simp add: main_def)
  next
    case False
    with that assms(1,3) have "pipeline h cfg [] = Throw e t" by (simp add: main_def)
    with behaves_pipeline_no_manifest [OF none, of "[]" h] show ?thesis
      by (simp add: behaves_def benign_def)
  qed
  with none v step show ?thesis by (simp add: installPhase_def)
qed

theorem validation_skipped_without_manifest_witness:
  "parseArgs [''--health'', ''false''] = Inr [''_'' \<mapsto> JArr [], ''health'' \<mapsto> JStr ''false''] \<and>
   resolveConfig demoHost [''_'' \<mapsto> JArr [], ''health'' \<mapsto> JStr ''false''] =
     Inr (demoConfig\<lparr>health := False\<rparr>) \<and>
   validate (demoConfig\<lparr>health := False\<rparr>) \<and>
   validateStep demoHost (demoConfig\<lparr>health := False\<rparr>) [] = Ok () [] \<and>
   main demoHost [''--health'', ''false''] =
     Ok () [Call ''killPort'', ExecFile ''lsof'' [''-nP'', ''-iTCP:4321'', ''-sTCP:LISTEN'', ''-t''],
            Stdout (''ok (pid=none port=4321)'' @ newline)]"
proof -
  have "pipeline demoHost (demoConfig\<lparr>health := False\<rparr>) [] =
     Ok () [Call ''killPort'', ExecFile ''lsof'' [''-nP'', ''-iTCP:4321'', ''-sTCP:LISTEN'', ''-t''],
            Stdout (''ok (pid=none port=4321)'' @ newline)]"
    by (simp add: pipeline_def launchPhase_def installPhase_def validateStep_def clearCacheStep_def
        sideloadStep_def reclaimStep_def killPort_def execFile_def callHost_def
        startServerDetached_def healthStep_def restartStep_def okLine_def numToString_4321
        demoConfig_def demoHost_def)
  then have "main demoHost [''--health'', ''false''] =
     Ok () [Call ''killPort'', ExecFile ''lsof'' [''-nP'', ''-iTCP:4321'', ''-sTCP:LISTEN'', ''-t''],
            Stdout (''ok (pid=none port=4321)'' @ newline)]"
    by (simp add: main_def demo_parse_health_off demo_resolve_health_off helpRequested_def given_def)
  then show ?thesis
    using validation_skipped_without_manifest [of "[''--health'', ''false'']" "[''_'' \<mapsto> JArr [], ''health'' \<mapsto> JStr ''false'']"
        demoHost "demoConfig\<lparr>health := False\<rparr>" "[]"]
      demo_parse_health_off demo_resolve_health_off
    by simp
qed

end
